theory Spec2Isabelle
  imports Main
begin

section \<open>Strings of the program\<close>

text \<open>
  A string of the program is modelled as a \<^typ>\<open>string\<close>: the list of its code units, each
  in the range U+0000 .. U+00FF. An optional field of a JSON object (a value that may be
  \<^verbatim>\<open>undefined\<close>) is a \<^typ>\<open>string option\<close>. Strings with code units beyond that range
  are the subject of the section on UTF-16 below, where \<^verbatim>\<open>normalizeString\<close> is modelled on
  lists of 16-bit code units and shown to agree with the model here on this range.

  \<^verbatim>\<open>if (x)\<close> on such a value holds for a defined, non-empty string only.
\<close>

definition truthy :: "string option \<Rightarrow> bool" where
  "truthy x = (case x of None \<Rightarrow> False | Some s \<Rightarrow> s \<noteq> [])"

text \<open>\<^verbatim>\<open>String.prototype.toLowerCase\<close> on the code units below U+0100: the letters A-Z
  and the upper-case letters U+00C0 .. U+00DE (without the multiplication sign U+00D7)
  move up by 32; every other code unit stays.\<close>

definition lower_char :: "char \<Rightarrow> char" where
  "lower_char c =
     (let n = (of_char c :: nat)
      in if (65 \<le> n \<and> n \<le> 90) \<or> (192 \<le> n \<and> n \<le> 222 \<and> n \<noteq> 215)
         then char_of (n + 32) else c)"

definition toLowerCase :: "string \<Rightarrow> string" where
  "toLowerCase s = map lower_char s"

text \<open>The class \<^verbatim>\<open>\s\<close> of a regular expression, which is also what \<^verbatim>\<open>trim\<close>
  removes: TAB, LF, VT, FF, CR, space and the no-break space U+00A0.\<close>

definition is_space :: "char \<Rightarrow> bool" where
  "is_space c = ((of_char c :: nat) \<in> {9, 10, 11, 12, 13, 32, 160})"

text \<open>The character class of \<^verbatim>\<open>normalizeString\<close>:
  \<^verbatim>\<open>[\s.,\/#!$%\^&\*;:{}=\-_`~()']\<close>.\<close>

definition is_stripped :: "char \<Rightarrow> bool" where
  "is_stripped c =
     (is_space c \<or> c \<in> set ''.,/#!$%^&*;:{}=-_`~()'' \<or> (of_char c :: nat) = 39)"

definition trim :: "string \<Rightarrow> string" where
  "trim s = rev (dropWhile is_space (rev (dropWhile is_space s)))"

text \<open>The class \<^verbatim>\<open>\D\<close> is the complement of the digits 0-9.\<close>

definition is_digit :: "char \<Rightarrow> bool" where
  "is_digit c = (48 \<le> (of_char c :: nat) \<and> (of_char c :: nat) \<le> 57)"

section \<open>The normalizers\<close>

text \<open>
  \<^verbatim>\<open>
  function normalizeString(str: string | undefined): string {
      if (!str) return '';
      return str.toLowerCase().replace(/[\s.,\/#!$%\^&\*;:{}=\-_`~()']/g, "").trim();
  }
  \<close>
\<close>

definition normalizeString :: "string option \<Rightarrow> string" where
  "normalizeString str =
     (case str of
        None \<Rightarrow> []
      | Some s \<Rightarrow> if s = [] then []
                  else trim (filter (\<lambda>c. \<not> is_stripped c) (toLowerCase s)))"

text \<open>
  What the program takes from its platform and does not define itself: the URL parser behind
  \<^verbatim>\<open>new URL(s)\<close> and the regular-expression engine behind \<^verbatim>\<open>new RegExp(p, 'i')\<close>
  and the store's \<^verbatim>\<open>$regex\<close> operator. They are parameters of the model:
  \<^item> \<open>URL_hostname s\<close> is the \<^verbatim>\<open>hostname\<close> of \<^verbatim>\<open>new URL(s)\<close>, or \<open>None\<close> when the
    constructor throws;
  \<^item> \<open>RegExp_valid p\<close> holds when \<^verbatim>\<open>new RegExp(p, 'i')\<close> does not throw;
  \<^item> \<open>regex_matches i p s\<close> holds when the pattern \<open>p\<close> (ignoring case when \<open>i\<close>) matches
    somewhere in \<open>s\<close>.
\<close>

record platform =
  URL_hostname :: "string \<Rightarrow> string option"
  RegExp_valid :: "string \<Rightarrow> bool"
  regex_matches :: "bool \<Rightarrow> string \<Rightarrow> string \<Rightarrow> bool"

text \<open>Everything the program can throw. \<open>AxiosError\<close> carries the HTTP status of the
  response, if there was one; \<open>MongoServerError_E11000\<close> is the rejection of a write by a
  unique index.\<close>

datatype js_error =
    TypeError_Invalid_URL
  | SyntaxError_Invalid_RegExp
  | AxiosError "nat option"
  | MongoServerError_E11000

definition new_URL :: "platform \<Rightarrow> string \<Rightarrow> js_error + string" where
  "new_URL env s =
     (case URL_hostname env s of None \<Rightarrow> Inl TypeError_Invalid_URL | Some h \<Rightarrow> Inr h)"

text \<open>\<^verbatim>\<open>s.replace(/^www\./, '')\<close> and the like: remove a literal prefix if it is there.\<close>

definition strip_prefix :: "string \<Rightarrow> string \<Rightarrow> string" where
  "strip_prefix p s = (if take (length p) s = p then drop (length p) s else s)"

text \<open>\<^verbatim>\<open>s.replace(/^(https?:\/\/)?(www\.)?/, '')\<close>: both groups are optional and greedy.\<close>

definition strip_scheme_www :: "string \<Rightarrow> string" where
  "strip_scheme_www s =
     strip_prefix ''www.''
       (if take 7 s = ''http://'' then drop 7 s
        else if take 8 s = ''https://'' then drop 8 s
        else s)"

text \<open>\<^verbatim>\<open>s.split('/')[0]\<close>: the part before the first slash (all of \<open>s\<close> without one).\<close>

definition before_slash :: "string \<Rightarrow> string" where
  "before_slash s = takeWhile (\<lambda>c. c \<noteq> CHR ''/'') s"

text \<open>
  \<^verbatim>\<open>
  function normalizeUrl(url: string | undefined): string {
      if (!url) return '';
      try {
          const urlObj = new URL(url);
          return urlObj.hostname.replace(/^www\./, '');
      } catch {
          return url.toLowerCase().replace(/^(https?:\/\/)?(www\.)?/, '').split('/')[0];
      }
  }
  \<close>
  The result is a sum so that a throw would be a value \<open>Inl\<close>.
\<close>

definition normalizeUrl :: "platform \<Rightarrow> string option \<Rightarrow> js_error + string" where
  "normalizeUrl env url =
     (case url of
        None \<Rightarrow> Inr []
      | Some u \<Rightarrow>
          if u = [] then Inr []
          else (case new_URL env u of
                  Inr hostname \<Rightarrow> Inr (strip_prefix ''www.'' hostname)
                | Inl _ \<Rightarrow> Inr (before_slash (strip_scheme_www (toLowerCase u)))))"

section \<open>Strings in UTF-16\<close>

text \<open>
  A string of the program is a sequence of 16-bit code units. \<^verbatim>\<open>toLowerCase\<close> reads it as
  code points (a leading surrogate followed by a trailing one is one code point, every other
  code unit is a code point of its own), lower-cases the code points as Unicode says, and
  writes the result as code units again; the regular expression of \<^verbatim>\<open>normalizeString\<close> and
  \<^verbatim>\<open>trim\<close> work on code units. Unicode's lower-casing of a sequence of code points is a
  parameter of the model.
\<close>

type_synonym code_unit = nat
type_synonym code_point = nat

text \<open>The surrogates: code units U+D800 .. U+DBFF lead, U+DC00 .. U+DFFF trail.\<close>

definition is_leading_surrogate :: "nat \<Rightarrow> bool" where
  "is_leading_surrogate u = (0xD800 \<le> u \<and> u \<le> 0xDBFF)"

definition is_trailing_surrogate :: "nat \<Rightarrow> bool" where
  "is_trailing_surrogate u = (0xDC00 \<le> u \<and> u \<le> 0xDFFF)"

definition is_surrogate :: "nat \<Rightarrow> bool" where
  "is_surrogate u = (0xD800 \<le> u \<and> u \<le> 0xDFFF)"

text \<open>\<^verbatim>\<open>StringToCodePoints\<close> and \<^verbatim>\<open>CodePointsToString\<close> of the language standard.\<close>

fun StringToCodePoints :: "code_unit list \<Rightarrow> code_point list" where
  "StringToCodePoints (u # v # rest) =
     (if is_leading_surrogate u \<and> is_trailing_surrogate v
      then (0x10000 + (u - 0xD800) * 0x400 + (v - 0xDC00)) # StringToCodePoints rest
      else u # StringToCodePoints (v # rest))"
| "StringToCodePoints [u] = [u]"
| "StringToCodePoints [] = []"

definition UTF16EncodeCodePoint :: "code_point \<Rightarrow> code_unit list" where
  "UTF16EncodeCodePoint cp =
     (if cp \<le> 0xFFFF then [cp]
      else [(cp - 0x10000) div 0x400 + 0xD800, (cp - 0x10000) mod 0x400 + 0xDC00])"

definition CodePointsToString :: "code_point list \<Rightarrow> code_unit list" where
  "CodePointsToString cps = concat (map UTF16EncodeCodePoint cps)"

definition toLowerCase_utf16 ::
  "(code_point list \<Rightarrow> code_point list) \<Rightarrow> code_unit list \<Rightarrow> code_unit list" where
  "toLowerCase_utf16 toLowercase s = CodePointsToString (toLowercase (StringToCodePoints s))"

text \<open>The class \<^verbatim>\<open>\s\<close>, which is what \<^verbatim>\<open>trim\<close> removes, and the character class of
  \<^verbatim>\<open>normalizeString\<close>, on code units.\<close>

definition is_space_utf16 :: "code_unit \<Rightarrow> bool" where
  "is_space_utf16 u =
     (u \<in> {9, 10, 11, 12, 13, 32, 0xA0, 0x1680, 0x2028, 0x2029, 0x202F, 0x205F, 0x3000, 0xFEFF}
      \<or> (0x2000 \<le> u \<and> u \<le> 0x200A))"

definition is_stripped_utf16 :: "code_unit \<Rightarrow> bool" where
  "is_stripped_utf16 u =
     (is_space_utf16 u
      \<or> u \<in> {46, 44, 47, 35, 33, 36, 37, 94, 38, 42, 59, 58, 123, 125, 61, 45, 95, 96, 126,
              40, 41, 39})"

definition trim_utf16 :: "code_unit list \<Rightarrow> code_unit list" where
  "trim_utf16 s = rev (dropWhile is_space_utf16 (rev (dropWhile is_space_utf16 s)))"

definition normalizeString_utf16 ::
  "(code_point list \<Rightarrow> code_point list) \<Rightarrow> code_unit list option \<Rightarrow> code_unit list" where
  "normalizeString_utf16 toLowercase str =
     (case str of
        None \<Rightarrow> []
      | Some s \<Rightarrow> if s = [] then []
                  else trim_utf16 (filter (\<lambda>u. \<not> is_stripped_utf16 u)
                                     (toLowerCase_utf16 toLowercase s)))"

text \<open>A string is well formed when it has no surrogate without its partner. A scalar value
  is a code point that is not a surrogate.\<close>

definition well_formed :: "code_unit list \<Rightarrow> bool" where
  "well_formed s =
     (list_all (\<lambda>u. u < 0x10000) s \<and> list_all (\<lambda>c. \<not> is_surrogate c) (StringToCodePoints s))"

definition scalar_value :: "code_point \<Rightarrow> bool" where
  "scalar_value c = (c < 0x110000 \<and> \<not> is_surrogate c)"

section \<open>Documents and collections\<close>

type_synonym ObjectId = nat

text \<open>A collection is the list of its documents in natural order, each with its \<^verbatim>\<open>_id\<close>.\<close>

type_synonym 'd collection = "(ObjectId \<times> 'd) list"

text \<open>The record that the Bubble API returns for an identifier.\<close>

record bubble_record =
  site_1 :: "string option"
  full_address_1 :: "string option"
  name_1 :: "string option"
  phone_1 :: "string option"
  email_1 :: "string option"
  Unique_ID_1 :: "string option"
  Unique_ID :: "string option"

text \<open>A document of the business collection, with the fields the queries read:
  \<^verbatim>\<open>old_pin_code\<close>, \<^verbatim>\<open>name\<close>, \<^verbatim>\<open>website\<close> and \<^verbatim>\<open>contact.phone\<close>.\<close>

record business =
  old_pin_code :: "string option"
  business_name :: "string option"
  business_website :: "string option"
  contact_phone :: "string option"

datatype match_type = duplicate | direct_id | fallback_match | unmatched

text \<open>A document of the authoritative collection (\<^verbatim>\<open>newAuthoritativeDoc\<close>).\<close>

record authoritative_doc =
  website_normalized :: string
  address_normalized :: string
  name :: "string option"
  website :: "string option"
  address :: "string option"
  phone :: "string option"
  email :: "string option"
  bubble_ids :: "string list"
  mongo_business_id :: "ObjectId option"
  match_type :: match_type
  created_at :: nat
  updated_at :: nat

text \<open>The operations on the two collections, as a trace of what a job asks of the store.\<close>

datatype condition = name_regex string | contact_phone_regex string

record fallback_query =
  website_regex :: string
  or_conditions :: "condition list"

datatype db_op =
    Authoritative_findOne "string \<times> string"
  | Authoritative_updateOne ObjectId string
  | Authoritative_insertOne authoritative_doc
  | Business_findOne string
  | Business_find fallback_query

fun is_write :: "db_op \<Rightarrow> bool" where
  "is_write (Authoritative_updateOne _ _) = True"
| "is_write (Authoritative_insertOne _) = True"
| "is_write _ = False"

subsection \<open>The business collection (read only)\<close>

text \<open>\<^verbatim>\<open>businessCollection.findOne({ old_pin_code: u })\<close>: the first document whose field is \<open>u\<close>.\<close>

definition business_findOne :: "business collection \<Rightarrow> string \<Rightarrow> (ObjectId \<times> business) option" where
  "business_findOne bc u = find (\<lambda>(i, b). old_pin_code b = Some u) bc"

text \<open>A \<^verbatim>\<open>$regex\<close> condition on a field holds when the field is there and the pattern
  matches in it.\<close>

definition field_regex :: "platform \<Rightarrow> bool \<Rightarrow> string \<Rightarrow> string option \<Rightarrow> bool" where
  "field_regex env icase p v = (case v of None \<Rightarrow> False | Some s \<Rightarrow> regex_matches env icase p s)"

fun satisfies :: "platform \<Rightarrow> business \<Rightarrow> condition \<Rightarrow> bool" where
  "satisfies env b (name_regex p) = field_regex env True p (business_name b)"
| "satisfies env b (contact_phone_regex p) = field_regex env False p (contact_phone b)"

text \<open>\<^verbatim>\<open>{ $and: [{ website: { $regex: /w/i } }, { $or: conditions }] }\<close>\<close>

definition query_matches :: "platform \<Rightarrow> fallback_query \<Rightarrow> business \<Rightarrow> bool" where
  "query_matches env q b =
     (field_regex env True (website_regex q) (business_website b)
      \<and> list_ex (satisfies env b) (or_conditions q))"

definition business_find ::
  "platform \<Rightarrow> business collection \<Rightarrow> fallback_query \<Rightarrow> business collection" where
  "business_find env bc q = filter (\<lambda>(i, b). query_matches env q b) bc"

subsection \<open>The authoritative collection\<close>

text \<open>The key of the unique index that \<^verbatim>\<open>connectToMongo\<close> creates:
  \<^verbatim>\<open>createIndex({ website_normalized: 1, address_normalized: 1 }, { unique: true })\<close>.\<close>

definition dedup_key :: "authoritative_doc \<Rightarrow> string \<times> string" where
  "dedup_key d = (website_normalized d, address_normalized d)"

definition authoritative_findOne ::
  "authoritative_doc collection \<Rightarrow> string \<times> string \<Rightarrow> (ObjectId \<times> authoritative_doc) option" where
  "authoritative_findOne coll k = find (\<lambda>(i, d). dedup_key d = k) coll"

text \<open>\<^verbatim>\<open>$addToSet\<close> appends a value to an array unless the array has it already.\<close>

definition addToSet :: "string list \<Rightarrow> string \<Rightarrow> string list" where
  "addToSet xs x = (if x \<in> set xs then xs else xs @ [x])"

text \<open>\<^verbatim>\<open>updateOne({ _id: i }, { $addToSet: { bubble_ids: b } })\<close> changes the first document
  with that \<^verbatim>\<open>_id\<close>, and nothing when there is none.\<close>

fun authoritative_updateOne ::
  "authoritative_doc collection \<Rightarrow> ObjectId \<Rightarrow> string \<Rightarrow> authoritative_doc collection" where
  "authoritative_updateOne [] i b = []"
| "authoritative_updateOne ((j, d) # rest) i b =
     (if j = i then (j, d\<lparr>bubble_ids := addToSet (bubble_ids d) b\<rparr>) # rest
      else (j, d) # authoritative_updateOne rest i b)"

text \<open>The driver gives a new document an \<^verbatim>\<open>_id\<close> that no document of the collection has.\<close>

definition new_ObjectId :: "'d collection \<Rightarrow> ObjectId" where
  "new_ObjectId coll = Suc (fold max (map fst coll) 0)"

text \<open>\<^verbatim>\<open>insertOne(d)\<close> under the unique index: rejected with error E11000 when a document
  with the same key is there, appended otherwise.\<close>

definition authoritative_insertOne ::
  "authoritative_doc collection \<Rightarrow> authoritative_doc \<Rightarrow> js_error + authoritative_doc collection" where
  "authoritative_insertOne coll d =
     (if list_ex (\<lambda>(i, d'). dedup_key d' = dedup_key d) coll
      then Inl MongoServerError_E11000
      else Inr (coll @ [(new_ObjectId coll, d)]))"

section \<open>The job: \<^verbatim>\<open>processBubbleData\<close>\<close>

text \<open>What \<^verbatim>\<open>axios.get\<close> gives for the job's identifier: a thrown \<^verbatim>\<open>AxiosError\<close> (with the
  status of the response, if any), or the body, of which the job reads
  \<^verbatim>\<open>apiResponse?.response\<close> (\<open>None\<close> when that is missing).\<close>

datatype fetch_result = axios_throws "nat option" | api_response "bubble_record option"

datatype status = success | skipped | not_found

text \<open>The object a job returns: \<^verbatim>\<open>{ status, match_type?, reason?, bubbleId }\<close>.\<close>

record job_result =
  res_status :: status
  res_match_type :: "match_type option"
  res_reason :: "string option"
  res_bubbleId :: string

text \<open>\<^verbatim>\<open>let mongoMatch: { mongo_business_id: ObjectId | null; match_type: string; }\<close>\<close>

type_synonym mongoMatch = "ObjectId option \<times> match_type"

subsection \<open>The direct tier (lines 95-101)\<close>

text \<open>\<^verbatim>\<open>bubbleRecord.Unique_ID_1 || bubbleRecord.Unique_ID\<close>\<close>

definition uniqueIdFromBubble :: "bubble_record \<Rightarrow> string option" where
  "uniqueIdFromBubble r = (if truthy (Unique_ID_1 r) then Unique_ID_1 r else Unique_ID r)"

text \<open>
  \<^verbatim>\<open>
  if (uniqueIdFromBubble) {
      const matchingDoc = await businessCollection.findOne({ old_pin_code: uniqueIdFromBubble });
      if (matchingDoc) {
          mongoMatch = { mongo_business_id: matchingDoc._id, match_type: 'direct_id' };
      }
  }
  \<close>
\<close>

definition direct_id_tier ::
  "business collection \<Rightarrow> bubble_record \<Rightarrow> mongoMatch \<Rightarrow> db_op list \<times> mongoMatch" where
  "direct_id_tier bc r mongoMatch =
     (case uniqueIdFromBubble r of
        None \<Rightarrow> ([], mongoMatch)
      | Some u \<Rightarrow>
          if u = [] then ([], mongoMatch)
          else ([Business_findOne u],
                case business_findOne bc u of
                  Some (i, matchingDoc) \<Rightarrow> (Some i, direct_id)
                | None \<Rightarrow> mongoMatch))"

subsection \<open>The fallback tier (lines 103-118)\<close>

text \<open>
  \<^verbatim>\<open>
  if (name) queryConditions.push({ name: { $regex: new RegExp(normalizeString(name), 'i') } });
  \<close>
  The constructor throws a \<^verbatim>\<open>SyntaxError\<close> on a pattern it cannot compile.
\<close>

definition name_condition :: "platform \<Rightarrow> bubble_record \<Rightarrow> js_error + condition list" where
  "name_condition env r =
     (if truthy (name_1 r)
      then (if RegExp_valid env (normalizeString (name_1 r))
            then Inr [name_regex (normalizeString (name_1 r))]
            else Inl SyntaxError_Invalid_RegExp)
      else Inr [])"

text \<open>
  \<^verbatim>\<open>
  if (phone) {
      const digits = phone.replace(/\D/g, '');
      if (digits.length > 6) queryConditions.push({ "contact.phone": { $regex: digits } });
  }
  \<close>
\<close>

definition phone_condition :: "bubble_record \<Rightarrow> condition list" where
  "phone_condition r =
     (case phone_1 r of
        None \<Rightarrow> []
      | Some p \<Rightarrow>
          if p = [] then []
          else (let digits = filter is_digit p
                in if length digits > 6 then [contact_phone_regex digits] else []))"

definition queryConditions :: "platform \<Rightarrow> bubble_record \<Rightarrow> js_error + condition list" where
  "queryConditions env r =
     (case name_condition env r of
        Inl e \<Rightarrow> Inl e
      | Inr cs \<Rightarrow> Inr (cs @ phone_condition r))"

text \<open>
  \<^verbatim>\<open>
  if (queryConditions.length > 0) {
      const query = { $and: [{ website: { $regex: new RegExp(normalizeUrl(site), 'i') } },
                             { $or: queryConditions }]};
      const matches = await businessCollection.find(query).toArray();
      if (matches.length === 1) {
          mongoMatch = { mongo_business_id: matches[0]._id, match_type: 'fallback_match' };
      }
  }
  \<close>
  A list of length one is matched as \<open>[(i, b)]\<close>, so that \<^verbatim>\<open>matches[0]._id\<close> is \<open>i\<close>.
\<close>

definition fallback_tier ::
  "platform \<Rightarrow> business collection \<Rightarrow> bubble_record \<Rightarrow> mongoMatch
     \<Rightarrow> db_op list \<times> (js_error + mongoMatch)" where
  "fallback_tier env bc r mongoMatch =
     (case queryConditions env r of
        Inl e \<Rightarrow> ([], Inl e)
      | Inr conds \<Rightarrow>
          if length conds > 0
          then (case normalizeUrl env (site_1 r) of
                  Inl e \<Rightarrow> ([], Inl e)
                | Inr w \<Rightarrow>
                    if RegExp_valid env w
                    then (let query = \<lparr>website_regex = w, or_conditions = conds\<rparr>;
                              matches = business_find env bc query
                          in ([Business_find query],
                              Inr (case matches of
                                     [(i, b)] \<Rightarrow> (Some i, fallback_match)
                                   | _ \<Rightarrow> mongoMatch)))
                    else ([], Inl SyntaxError_Invalid_RegExp))
          else ([], Inr mongoMatch))"

text \<open>Lines 93-118: the two tiers in order, the second only
  \<^verbatim>\<open>if (!mongoMatch.mongo_business_id)\<close>.\<close>

definition matcher ::
  "platform \<Rightarrow> business collection \<Rightarrow> bubble_record \<Rightarrow> db_op list \<times> (js_error + mongoMatch)" where
  "matcher env bc r =
     (let (ops1, mongoMatch) = direct_id_tier bc r (None, unmatched)
      in if fst mongoMatch = None
         then (let (ops2, res) = fallback_tier env bc r mongoMatch in (ops1 @ ops2, res))
         else (ops1, Inr mongoMatch))"

subsection \<open>The whole job\<close>

text \<open>Lines 120-131. The two readings of the clock are the pair \<open>clock\<close>.\<close>

definition newAuthoritativeDoc ::
  "string \<times> string \<Rightarrow> bubble_record \<Rightarrow> string \<Rightarrow> mongoMatch \<Rightarrow> nat \<times> nat \<Rightarrow> authoritative_doc" where
  "newAuthoritativeDoc deDuplicationKey r bid mongoMatch clock =
     \<lparr> website_normalized = fst deDuplicationKey,
       address_normalized = snd deDuplicationKey,
       name = name_1 r,
       website = site_1 r,
       address = full_address_1 r,
       phone = phone_1 r,
       email = email_1 r,
       bubble_ids = [bid],
       mongo_business_id = fst mongoMatch,
       match_type = snd mongoMatch,
       created_at = fst clock,
       updated_at = snd clock \<rparr>"

text \<open>
  A job reads the authoritative collection once (\<^verbatim>\<open>findOne\<close>, line 79) and writes it at most
  once, later (\<^verbatim>\<open>updateOne\<close>, line 82, or \<^verbatim>\<open>insertOne\<close>, line 133). Each \<^verbatim>\<open>await\<close> lets the
  other jobs of the worker run, so the collection that the write meets need not be the
  collection that the read saw. The job is therefore modelled in two parts: what it does up to
  its write, which leaves the write pending, and the write.
\<close>

datatype pending =
    Return job_result
  | Update ObjectId string
  | Insert authoritative_doc

definition not_found_result :: "string \<Rightarrow> job_result" where
  "not_found_result bid =
     \<lparr> res_status = not_found, res_match_type = None,
       res_reason = Some (''Record not found or accessible via API for bubbleId: '' @ bid),
       res_bubbleId = bid \<rparr>"

definition skipped_result :: "string \<Rightarrow> job_result" where
  "skipped_result bid =
     \<lparr> res_status = skipped, res_match_type = None,
       res_reason = Some ''Missing website and address for de-duplication'',
       res_bubbleId = bid \<rparr>"

definition success_result :: "match_type \<Rightarrow> string \<Rightarrow> job_result" where
  "success_result mt bid =
     \<lparr> res_status = success, res_match_type = Some mt, res_reason = None, res_bubbleId = bid \<rparr>"

text \<open>Lines 53-131, up to the pending write.\<close>

definition processBubbleData_read ::
  "platform \<Rightarrow> business collection \<Rightarrow> authoritative_doc collection \<Rightarrow> string \<Rightarrow> fetch_result
     \<Rightarrow> nat \<times> nat \<Rightarrow> db_op list \<times> (js_error + pending)" where
  "processBubbleData_read env bc coll bid fetched clock =
     (case fetched of
        axios_throws st \<Rightarrow> ([], Inl (AxiosError st))
      | api_response None \<Rightarrow> ([], Inr (Return (not_found_result bid)))
      | api_response (Some bubbleRecord) \<Rightarrow>
          (case normalizeUrl env (site_1 bubbleRecord) of
             Inl e \<Rightarrow> ([], Inl e)
           | Inr w \<Rightarrow>
               (let deDuplicationKey = (w, normalizeString (full_address_1 bubbleRecord))
                in if fst deDuplicationKey = [] \<and> snd deDuplicationKey = []
                   then ([], Inr (Return (skipped_result bid)))
                   else (case authoritative_findOne coll deDuplicationKey of
                           Some (i, existingAuthoritativeDoc) \<Rightarrow>
                             ([Authoritative_findOne deDuplicationKey], Inr (Update i bid))
                         | None \<Rightarrow>
                             (case matcher env bc bubbleRecord of
                                (ops, Inl e) \<Rightarrow>
                                  (Authoritative_findOne deDuplicationKey # ops, Inl e)
                              | (ops, Inr mongoMatch) \<Rightarrow>
                                  (Authoritative_findOne deDuplicationKey # ops,
                                   Inr (Insert (newAuthoritativeDoc deDuplicationKey bubbleRecord
                                                  bid mongoMatch clock))))))))"

text \<open>The pending write (lines 82-86 and 133-135) on the collection as it is then. An error
  of the store is thrown on, as the \<^verbatim>\<open>catch\<close> block does with every error (line 148).\<close>

definition processBubbleData_write ::
  "authoritative_doc collection \<Rightarrow> string \<Rightarrow> pending
     \<Rightarrow> (db_op list \<times> (js_error + job_result)) \<times> authoritative_doc collection" where
  "processBubbleData_write coll bid p =
     (case p of
        Return res \<Rightarrow> (([], Inr res), coll)
      | Update i b \<Rightarrow>
          (([Authoritative_updateOne i b], Inr (success_result duplicate bid)),
           authoritative_updateOne coll i b)
      | Insert newDoc \<Rightarrow>
          (case authoritative_insertOne coll newDoc of
             Inl e \<Rightarrow> (([Authoritative_insertOne newDoc], Inl e), coll)
           | Inr coll' \<Rightarrow>
               (([Authoritative_insertOne newDoc], Inr (success_result (match_type newDoc) bid)),
                coll')))"

text \<open>The job with the write meeting the collection \<open>coll_w\<close>, which other jobs may have
  changed since the read of \<open>coll_r\<close>.\<close>

definition processBubbleData_interleaved ::
  "platform \<Rightarrow> business collection \<Rightarrow> authoritative_doc collection
     \<Rightarrow> authoritative_doc collection \<Rightarrow> string \<Rightarrow> fetch_result \<Rightarrow> nat \<times> nat
     \<Rightarrow> (db_op list \<times> (js_error + job_result)) \<times> authoritative_doc collection" where
  "processBubbleData_interleaved env bc coll_r coll_w bid fetched clock =
     (case processBubbleData_read env bc coll_r bid fetched clock of
        (ops, Inl e) \<Rightarrow> ((ops, Inl e), coll_w)
      | (ops, Inr p) \<Rightarrow>
          (case processBubbleData_write coll_w bid p of
             ((ops', res), coll') \<Rightarrow> ((ops @ ops', res), coll')))"

text \<open>The job run with no other job between its read and its write.\<close>

definition processBubbleData ::
  "platform \<Rightarrow> business collection \<Rightarrow> authoritative_doc collection \<Rightarrow> string \<Rightarrow> fetch_result
     \<Rightarrow> nat \<times> nat
     \<Rightarrow> (db_op list \<times> (js_error + job_result)) \<times> authoritative_doc collection" where
  "processBubbleData env bc coll bid fetched clock =
     processBubbleData_interleaved env bc coll coll bid fetched clock"

section \<open>The worker: jobs run concurrently\<close>

text \<open>
  \<^verbatim>\<open>connectToMongo\<close> creates the unique index before any job runs; on a collection that
  already has two documents with one key the creation fails and the process exits (line 45).
  Apart from that index, the store keeps the \<^verbatim>\<open>_id\<close> of a collection unique.
\<close>

definition unique_index :: "authoritative_doc collection \<Rightarrow> bool" where
  "unique_index coll = distinct (map (\<lambda>(i, d). dedup_key d) coll)"

definition unique_ids :: "'d collection \<Rightarrow> bool" where
  "unique_ids coll = distinct (map fst coll)"

definition connectToMongo :: "authoritative_doc collection \<Rightarrow> authoritative_doc collection option" where
  "connectToMongo coll = (if unique_index coll then Some coll else None)"

text \<open>
  The worker (\<^verbatim>\<open>new Worker(QUEUE_NAME, processBubbleData, { concurrency })\<close>) runs several jobs
  at a time, and the producer adds every job with \<^verbatim>\<open>attempts: 3\<close> and a backoff: a job that
  throws is run again by the queue, until it returns or has thrown on its last attempt.
  Every attempt calls the API and reads the clock anew.

  A job is waiting to start an attempt, or has the write of its attempt pending, or has
  returned (\<^verbatim>\<open>completed\<close>), or has thrown on its last attempt (\<^verbatim>\<open>failed\<close>). The first two
  carry what the later attempts will be given by the API and the clock, one pair for each
  attempt that is left. A step of a job is atomic: the part of an attempt up to the write,
  or its write.
\<close>

datatype job_state =
    Queued string fetch_result "nat \<times> nat" "(fetch_result \<times> (nat \<times> nat)) list"
  | Awaiting_write string pending "(fetch_result \<times> (nat \<times> nat)) list"
  | Completed job_result
  | Failed js_error

text \<open>What the queue does with a job that threw \<open>e\<close>: the next attempt, if one is left.\<close>

definition retry :: "string \<Rightarrow> js_error \<Rightarrow> (fetch_result \<times> (nat \<times> nat)) list \<Rightarrow> job_state" where
  "retry bid e later =
     (case later of
        [] \<Rightarrow> Failed e
      | (fetched, clock) # later' \<Rightarrow> Queued bid fetched clock later')"

fun job_step ::
  "platform \<Rightarrow> business collection \<Rightarrow> authoritative_doc collection \<Rightarrow> job_state
     \<Rightarrow> authoritative_doc collection \<times> job_state" where
  "job_step env bc coll (Queued bid fetched clock later) =
     (case snd (processBubbleData_read env bc coll bid fetched clock) of
        Inl e \<Rightarrow> (coll, retry bid e later)
      | Inr (Return res) \<Rightarrow> (coll, Completed res)
      | Inr p \<Rightarrow> (coll, Awaiting_write bid p later))"
| "job_step env bc coll (Awaiting_write bid p later) =
     (case processBubbleData_write coll bid p of
        ((ops, Inl e), coll') \<Rightarrow> (coll', retry bid e later)
      | ((ops, Inr res), coll') \<Rightarrow> (coll', Completed res))"
| "job_step env bc coll j = (coll, j)"

text \<open>A schedule names, step by step, the job that moves next.\<close>

fun worker_run ::
  "platform \<Rightarrow> business collection \<Rightarrow> nat list
     \<Rightarrow> authoritative_doc collection \<times> job_state list
     \<Rightarrow> authoritative_doc collection \<times> job_state list" where
  "worker_run env bc [] st = st"
| "worker_run env bc (n # schedule) (coll, jobs) =
     (if n < length jobs
      then (case job_step env bc coll (jobs ! n) of
              (coll', j) \<Rightarrow> worker_run env bc schedule (coll', jobs[n := j]))
      else worker_run env bc schedule (coll, jobs))"

section \<open>Concrete inputs\<close>

text \<open>A platform to evaluate the definitions on: its URL parser accepts the one absolute URL
  used below, every pattern compiles, and a pattern matches where it occurs literally.\<close>

definition contains_literal :: "bool \<Rightarrow> string \<Rightarrow> string \<Rightarrow> bool" where
  "contains_literal icase p s =
     (let p' = (if icase then toLowerCase p else p);
          s' = (if icase then toLowerCase s else s)
      in list_ex (\<lambda>n. take (length p') (drop n s') = p') [0..<Suc (length s')])"

definition example_platform :: platform where
  "example_platform =
     \<lparr> URL_hostname =
         (\<lambda>s. if s = ''https://www.Example.com/path'' then Some ''www.example.com'' else None),
       RegExp_valid = (\<lambda>p. True),
       regex_matches = contains_literal \<rparr>"

text \<open>A business collection of two; four records of the Bubble API, of which the first two
  have the same key, the third has no website and the fourth has neither a website nor an
  address left after normalization; and the documents that the first two records give rise
  to on an empty collection.\<close>

definition example_businesses :: "business collection" where
  "example_businesses =
     [(1, \<lparr> old_pin_code = Some ''P1'', business_name = Some ''ACME Corp'',
            business_website = Some ''http://example.com'', contact_phone = Some ''5551234567'' \<rparr>),
      (2, \<lparr> old_pin_code = Some ''P2'', business_name = Some ''Acme Two'',
            business_website = Some ''Example.com'', contact_phone = None \<rparr>)]"

definition record_a :: bubble_record where
  "record_a =
     \<lparr> site_1 = Some ''https://www.Example.com/path'', full_address_1 = Some ''1 Main St.'',
       name_1 = Some ''Acme'', phone_1 = Some ''(555) 123-4567'', email_1 = None,
       Unique_ID_1 = None, Unique_ID = None \<rparr>"

definition record_b :: bubble_record where
  "record_b =
     \<lparr> site_1 = Some ''example.com/about'', full_address_1 = Some ''1 main st'',
       name_1 = Some ''Acme Two'', phone_1 = None, email_1 = None,
       Unique_ID_1 = Some '''', Unique_ID = Some ''P1'' \<rparr>"

definition record_without_website :: bubble_record where
  "record_without_website =
     \<lparr> site_1 = None, full_address_1 = Some ''9 Elm Rd'',
       name_1 = Some ''Corp'', phone_1 = None, email_1 = None,
       Unique_ID_1 = None, Unique_ID = None \<rparr>"

definition record_without_key :: bubble_record where
  "record_without_key =
     \<lparr> site_1 = None, full_address_1 = Some '' - '',
       name_1 = Some ''Acme'', phone_1 = None, email_1 = None,
       Unique_ID_1 = None, Unique_ID = Some ''P1'' \<rparr>"

definition doc_a :: authoritative_doc where
  "doc_a = newAuthoritativeDoc (''example.com'', ''1mainst'') record_a ''A'' (None, unmatched) (0, 0)"

definition doc_b :: authoritative_doc where
  "doc_b = newAuthoritativeDoc (''example.com'', ''1mainst'') record_b ''B'' (Some 1, direct_id) (1, 1)"

text \<open>A record with two different legacy identifiers, whose website and name match the first
  business and whose \<^verbatim>\<open>Unique_ID_1\<close> is the \<^verbatim>\<open>old_pin_code\<close> of the second.\<close>

definition record_two_identifiers :: bubble_record where
  "record_two_identifiers =
     \<lparr> site_1 = Some ''example.com'', full_address_1 = Some ''5 Oak Ave'',
       name_1 = Some ''Corp'', phone_1 = None, email_1 = None,
       Unique_ID_1 = Some ''P2'', Unique_ID = Some ''P1'' \<rparr>"

text \<open>Unicode's lower-casing on the Basic Latin and Latin-1 letters and on the Deseret
  letters U+10400 .. U+10427; every other code point is left as it is.\<close>

definition example_toLowercase :: "code_point list \<Rightarrow> code_point list" where
  "example_toLowercase cps =
     map (\<lambda>c. if (65 \<le> c \<and> c \<le> 90) \<or> (192 \<le> c \<and> c \<le> 222 \<and> c \<noteq> 215) then c + 32
              else if 0x10400 \<le> c \<and> c \<le> 0x10427 then c + 40
              else c) cps"

text \<open>Jobs as the producer adds them, with three attempts each: two jobs for records with the
  same key, and the second of them again with an API that answers its first two attempts with
  status 429.\<close>

definition job_a :: job_state where
  "job_a =
     Queued ''A'' (api_response (Some record_a)) (0, 0)
       [(api_response (Some record_a), (10, 10)), (api_response (Some record_a), (20, 20))]"

definition job_b :: job_state where
  "job_b =
     Queued ''B'' (api_response (Some record_b)) (1, 1)
       [(api_response (Some record_b), (11, 11)), (api_response (Some record_b), (21, 21))]"

definition job_b_rate_limited :: job_state where
  "job_b_rate_limited =
     Queued ''B'' (axios_throws (Some 429)) (1, 1)
       [(axios_throws (Some 429), (11, 11)), (api_response (Some record_b), (21, 21))]"

section \<open>Invariants of the worker\<close>

text \<open>\<open>recorded coll k bid\<close>: the collection has a document with key \<open>k\<close> whose
  \<^verbatim>\<open>bubble_ids\<close> hold \<open>bid\<close>.\<close>

definition recorded :: "authoritative_doc collection \<Rightarrow> string \<times> string \<Rightarrow> string \<Rightarrow> bool" where
  "recorded coll k bid = list_ex (\<lambda>(i, d). dedup_key d = k \<and> bid \<in> set (bubble_ids d)) coll"

text \<open>\<open>fetches_key env k fetched\<close>: the attempt is given no record (the API call throws) or a
  record with key \<open>k\<close>.\<close>

definition fetches_key :: "platform \<Rightarrow> string \<times> string \<Rightarrow> fetch_result \<Rightarrow> bool" where
  "fetches_key env k fetched =
     (case fetched of
        axios_throws st \<Rightarrow> True
      | api_response None \<Rightarrow> False
      | api_response (Some r) \<Rightarrow>
          normalizeUrl env (site_1 r) = Inr (fst k) \<and> normalizeString (full_address_1 r) = snd k)"

text \<open>What holds of a job for a record with key \<open>k\<close> and identifier \<open>bid\<close> at each of its
  stages: every attempt is for that record, a pending update names a document with that key,
  a pending insert is a document with that key and that identifier alone, and once the job
  has completed the identifier is recorded under the key.\<close>

fun job_invariant ::
  "platform \<Rightarrow> string \<times> string \<Rightarrow> string \<Rightarrow> authoritative_doc collection \<Rightarrow> job_state \<Rightarrow> bool" where
  "job_invariant env k bid coll (Queued bid' fetched clock later) =
     (bid' = bid \<and> k \<noteq> ([], []) \<and> fetches_key env k fetched
      \<and> list_all (\<lambda>(f, c). fetches_key env k f) later)"
| "job_invariant env k bid coll (Awaiting_write bid' p later) =
     (bid' = bid \<and> k \<noteq> ([], []) \<and> list_all (\<lambda>(f, c). fetches_key env k f) later
      \<and> (case p of
            Return res \<Rightarrow> False
          | Update i b \<Rightarrow> b = bid \<and> list_ex (\<lambda>(j, d). j = i \<and> dedup_key d = k) coll
          | Insert d \<Rightarrow> dedup_key d = k \<and> bubble_ids d = [bid]))"
| "job_invariant env k bid coll (Completed res) = recorded coll k bid"
| "job_invariant env k bid coll (Failed e) = True"

text \<open>\<open>grows coll coll'\<close>: every document of \<open>coll\<close> is still in \<open>coll'\<close>, under its
  \<^verbatim>\<open>_id\<close> and with its key, and has lost none of its \<^verbatim>\<open>bubble_ids\<close>. No step of a job
  deletes a document or removes an identifier.\<close>

definition grows :: "authoritative_doc collection \<Rightarrow> authoritative_doc collection \<Rightarrow> bool" where
  "grows coll coll' =
     list_all (\<lambda>(i, d). list_ex (\<lambda>(j, d'). j = i \<and> dedup_key d' = dedup_key d
                                   \<and> set (bubble_ids d) \<subseteq> set (bubble_ids d')) coll') coll"

text \<open>\<open>key_present coll k\<close>: the collection has a document with key \<open>k\<close>.
  \<open>fetches_record env bc k fetched\<close>: the attempt is given a record with key \<open>k\<close> on which
  the matcher does not throw.\<close>

definition key_present :: "authoritative_doc collection \<Rightarrow> string \<times> string \<Rightarrow> bool" where
  "key_present coll k = list_ex (\<lambda>(i, d). dedup_key d = k) coll"

definition fetches_record ::
  "platform \<Rightarrow> business collection \<Rightarrow> string \<times> string \<Rightarrow> fetch_result \<Rightarrow> bool" where
  "fetches_record env bc k fetched =
     (case fetched of
        api_response (Some r) \<Rightarrow>
          normalizeUrl env (site_1 r) = Inr (fst k) \<and> normalizeString (full_address_1 r) = snd k
          \<and> (case snd (matcher env bc r) of Inr mm \<Rightarrow> True | Inl e \<Rightarrow> False)
      | _ \<Rightarrow> False)"

text \<open>What holds, at each of its stages, of a job that is given its record on every attempt:
  when it has no attempt left after this one, the document with its key is there already, so
  that this attempt cannot meet a rejected insert.\<close>

fun never_fails ::
  "platform \<Rightarrow> business collection \<Rightarrow> string \<times> string \<Rightarrow> authoritative_doc collection
     \<Rightarrow> job_state \<Rightarrow> bool" where
  "never_fails env bc k coll (Queued bid fetched clock later) =
     (k \<noteq> ([], []) \<and> list_all (fetches_record env bc k) (fetched # map fst later)
      \<and> (later \<noteq> [] \<or> key_present coll k))"
| "never_fails env bc k coll (Awaiting_write bid p later) =
     (k \<noteq> ([], []) \<and> list_all (fetches_record env bc k) (map fst later)
      \<and> (case p of
            Return res \<Rightarrow> False
          | Update i b \<Rightarrow> True
          | Insert d \<Rightarrow> dedup_key d = k \<and> later \<noteq> []))"
| "never_fails env bc k coll (Completed res) = True"
| "never_fails env bc k coll (Failed e) = False"

section \<open>The normalizers: properties\<close>

lemma lower_char_idem: "lower_char (lower_char c) = lower_char c"
  unfolding lower_char_def Let_def
  by (auto simp: of_char_of)

lemma is_space_stripped: "is_space c \<Longrightarrow> is_stripped c"
  by (simp add: is_stripped_def)

lemma dropWhile_none: "\<forall>c\<in>set s. \<not> P c \<Longrightarrow> dropWhile P s = s"
  by (cases s) auto

lemma trim_no_space: "\<forall>c\<in>set s. \<not> is_space c \<Longrightarrow> trim s = s"
  unfolding trim_def by (simp add: dropWhile_none)

lemma trim_strip:
  "trim (filter (\<lambda>c. \<not> is_stripped c) s) = filter (\<lambda>c. \<not> is_stripped c) s"
  by (rule trim_no_space) (auto dest: is_space_stripped)

lemma toLowerCase_strip_lower:
  "toLowerCase (filter (\<lambda>c. \<not> is_stripped c) (toLowerCase s))
     = filter (\<lambda>c. \<not> is_stripped c) (toLowerCase s)"
  unfolding toLowerCase_def
  by (induction s) (auto simp: lower_char_idem)

lemma normalizeString_Some:
  "normalizeString (Some s) = filter (\<lambda>c. \<not> is_stripped c) (toLowerCase s)"
  by (simp add: normalizeString_def trim_strip toLowerCase_def)

lemma normalizeString_latin1_idempotent:
  "normalizeString (Some (normalizeString s)) = normalizeString s"
proof (cases s)
  case None
  then show ?thesis by (simp add: normalizeString_def)
next
  case (Some t)
  then show ?thesis
    by (simp add: normalizeString_Some toLowerCase_strip_lower)
qed

subsection \<open>On UTF-16 strings\<close>

lemmas utf16_defs =
  normalizeString_utf16_def toLowerCase_utf16_def CodePointsToString_def UTF16EncodeCodePoint_def
  trim_utf16_def is_stripped_utf16_def is_space_utf16_def is_leading_surrogate_def
  is_trailing_surrogate_def is_surrogate_def example_toLowercase_def

lemma decode_not_leading:
  "\<not> is_leading_surrogate u \<Longrightarrow> StringToCodePoints (u # xs) = u # StringToCodePoints xs"
  by (cases xs) simp_all

lemma decode_pair:
  "is_leading_surrogate h \<Longrightarrow> is_trailing_surrogate l \<Longrightarrow>
     StringToCodePoints (h # l # xs) = (0x10000 + (h - 0xD800) * 0x400 + (l - 0xDC00)) # StringToCodePoints xs"
  by simp

lemma encode_scalar:
  assumes "scalar_value c"
  shows "StringToCodePoints (UTF16EncodeCodePoint c @ xs) = c # StringToCodePoints xs"
proof (cases "c \<le> 0xFFFF")
  case True
  with assms have "\<not> is_leading_surrogate c"
    by (auto simp: scalar_value_def is_surrogate_def is_leading_surrogate_def)
  with True show ?thesis
    by (simp add: UTF16EncodeCodePoint_def decode_not_leading)
next
  case False
  let ?h = "(c - 0x10000) div 0x400 + 0xD800" and ?l = "(c - 0x10000) mod 0x400 + 0xDC00"
  from assms False have b: "c - 0x10000 < 0x100000"
    unfolding scalar_value_def by arith
  then have "(c - 0x10000) div 0x400 < 0x400" by simp
  then have h: "is_leading_surrogate ?h"
    by (simp add: is_leading_surrogate_def)
  have "(c - 0x10000) mod 0x400 < 0x400" by simp
  then have l: "is_trailing_surrogate ?l"
    by (simp add: is_trailing_surrogate_def)
  have "0x10000 + (?h - 0xD800) * 0x400 + (?l - 0xDC00) = c"
    using False by simp
  with decode_pair [OF h l, of xs] False show ?thesis
    by (simp add: UTF16EncodeCodePoint_def)
qed

lemma decode_encode:
  "list_all scalar_value cps \<Longrightarrow> StringToCodePoints (CodePointsToString cps) = cps"
  by (induction cps) (simp_all add: CodePointsToString_def encode_scalar)

lemma stripped_small: "is_stripped_utf16 u \<Longrightarrow> u \<le> 0xFFFF \<and> \<not> is_surrogate u"
  by (auto simp: is_stripped_utf16_def is_space_utf16_def is_surrogate_def)

lemma filter_encode_one:
  assumes "c < 0x110000"
  shows "filter (\<lambda>u. \<not> is_stripped_utf16 u) (UTF16EncodeCodePoint c)
           = (if is_stripped_utf16 c then [] else UTF16EncodeCodePoint c)"
proof (cases "c \<le> 0xFFFF")
  case True
  then show ?thesis by (simp add: UTF16EncodeCodePoint_def)
next
  case False
  let ?h = "(c - 0x10000) div 0x400 + 0xD800" and ?l = "(c - 0x10000) mod 0x400 + 0xDC00"
  from assms False have "c - 0x10000 < 0x100000" by arith
  then have "(c - 0x10000) div 0x400 < 0x400" by simp
  then have "is_surrogate ?h" by (simp add: is_surrogate_def)
  then have h: "\<not> is_stripped_utf16 ?h" using stripped_small by blast
  have "(c - 0x10000) mod 0x400 < 0x400" by simp
  then have "is_surrogate ?l" by (simp add: is_surrogate_def)
  then have l: "\<not> is_stripped_utf16 ?l" using stripped_small by blast
  have c: "\<not> is_stripped_utf16 c" using False stripped_small by blast
  from h l c False show ?thesis by (simp add: UTF16EncodeCodePoint_def)
qed

lemma filter_encode:
  "list_all scalar_value cps \<Longrightarrow>
     filter (\<lambda>u. \<not> is_stripped_utf16 u) (CodePointsToString cps)
       = CodePointsToString (filter (\<lambda>c. \<not> is_stripped_utf16 c) cps)"
  by (induction cps) (simp_all add: CodePointsToString_def filter_encode_one scalar_value_def)

lemma well_formed_scalar:
  "well_formed s \<Longrightarrow> list_all scalar_value (StringToCodePoints s)"
proof (induction s rule: StringToCodePoints.induct)
  case (1 u v rest)
  show ?case
  proof (cases "is_leading_surrogate u \<and> is_trailing_surrogate v")
    case True
    then have "u - 0xD800 \<le> 0x3FF" "v - 0xDC00 \<le> 0x3FF"
      unfolding is_leading_surrogate_def is_trailing_surrogate_def by arith+
    then have "(u - 0xD800) * 0x400 \<le> 0x3FF * 0x400" "v - 0xDC00 \<le> 0x3FF"
      by simp_all
    then have "0x10000 + (u - 0xD800) * 0x400 + (v - 0xDC00) < (0x110000 :: nat)"
      by arith
    moreover have "well_formed rest"
      using "1.prems" True by (simp add: well_formed_def)
    ultimately show ?thesis
      using "1.IH"(1) "1.prems" True by (simp add: well_formed_def scalar_value_def)
  next
    case False
    have "well_formed (v # rest)"
      using "1.prems" False by (auto simp: well_formed_def)
    then show ?thesis
      using "1.IH"(2) "1.prems" False by (auto simp: well_formed_def scalar_value_def)
  qed
next
  case (2 u)
  then show ?case by (simp add: well_formed_def scalar_value_def)
next
  case 3
  then show ?case by simp
qed

lemma trim_utf16_strip:
  "trim_utf16 (filter (\<lambda>u. \<not> is_stripped_utf16 u) s) = filter (\<lambda>u. \<not> is_stripped_utf16 u) s"
proof -
  have "\<forall>u\<in>set (filter (\<lambda>u. \<not> is_stripped_utf16 u) s). \<not> is_space_utf16 u"
    by (auto simp: is_stripped_utf16_def)
  then show ?thesis
    unfolding trim_utf16_def by (simp add: dropWhile_none)
qed

lemma normalizeString_utf16_Some:
  "normalizeString_utf16 L (Some s) =
     (if s = [] then [] else filter (\<lambda>u. \<not> is_stripped_utf16 u) (toLowerCase_utf16 L s))"
  by (simp add: normalizeString_utf16_def trim_utf16_strip)

lemma example_toLowercase_fixed:
  "example_toLowercase (filter P (example_toLowercase cps)) = filter P (example_toLowercase cps)"
  unfolding example_toLowercase_def
  by (induction cps) auto

lemma example_toLowercase_scalar:
  "list_all scalar_value cps \<Longrightarrow> list_all scalar_value (example_toLowercase cps)"
  unfolding example_toLowercase_def
  by (induction cps) (auto simp: scalar_value_def is_surrogate_def)

text \<open>On strings of code units below U+0100 the model on UTF-16 strings is the model on
  \<^typ>\<open>string\<close>, for a lower-casing that treats the code points below U+0100 as Unicode does;
  the example lower-casing is one.\<close>

lemma decode_small:
  "list_all (\<lambda>u. u < 256) s \<Longrightarrow> StringToCodePoints s = s"
  by (induction s rule: StringToCodePoints.induct) (auto simp: is_leading_surrogate_def)

lemma encode_small:
  "list_all (\<lambda>u. u < 256) cps \<Longrightarrow> CodePointsToString cps = cps"
  by (induction cps) (auto simp: CodePointsToString_def UTF16EncodeCodePoint_def)

lemma is_space_utf16_small:
  "n < 256 \<Longrightarrow> is_space_utf16 n = (n \<in> {9, 10, 11, 12, 13, 32, 160})"
  by (auto simp: is_space_utf16_def)

lemma is_space_utf16_of_char: "is_space_utf16 (of_char c) = is_space c"
  by (simp add: is_space_utf16_small is_space_def)

lemma is_stripped_code:
  "is_stripped c = ((of_char c :: nat) \<in> {9, 10, 11, 12, 13, 32, 160, 46, 44, 47, 35, 33, 36, 37,
      94, 38, 42, 59, 58, 123, 125, 61, 45, 95, 96, 126, 40, 41, 39})"
  unfolding is_stripped_def is_space_def
  apply simp
  apply (subst of_char_eq_iff [symmetric, where 'a = nat])+
  apply simp
  done

lemma is_stripped_utf16_of_char: "is_stripped_utf16 (of_char c) = is_stripped c"
  unfolding is_stripped_code is_stripped_utf16_def
  by (auto simp: is_space_utf16_small)

lemma dropWhile_map_of_char:
  "dropWhile is_space_utf16 (map of_char s) = map of_char (dropWhile is_space s)"
  by (induction s) (simp_all add: is_space_utf16_of_char)

lemma trim_utf16_of_char: "trim_utf16 (map of_char s) = map of_char (trim s)"
  by (simp add: trim_utf16_def trim_def dropWhile_map_of_char rev_map)

lemma filter_map_of_char:
  "filter (\<lambda>u. \<not> is_stripped_utf16 u) (map of_char s) = map of_char (filter (\<lambda>c. \<not> is_stripped c) s)"
  by (induction s) (simp_all add: is_stripped_utf16_of_char)

lemma normalizeString_utf16_latin1:
  assumes "\<forall>cps. list_all (\<lambda>c. c < 256) cps \<longrightarrow>
             toLowercase cps = map (\<lambda>c. of_char (lower_char (char_of c))) cps"
  shows "normalizeString_utf16 toLowercase (map_option (map of_char) str)
           = map of_char (normalizeString str)"
proof (cases str)
  case None
  then show ?thesis by (simp add: normalizeString_utf16_def normalizeString_def)
next
  case (Some s)
  have small: "list_all (\<lambda>u. u < (256 :: nat)) (map of_char s)"
    by (simp add: list_all_iff)
  have "toLowercase (map of_char s)
          = map (\<lambda>c. of_char (lower_char (char_of c))) (map of_char s :: nat list)"
    by (rule assms [rule_format, OF small])
  also have "\<dots> = map of_char (toLowerCase s)"
    by (simp add: toLowerCase_def)
  finally have l: "toLowercase (map of_char s) = map of_char (toLowerCase s)" .
  have small': "list_all (\<lambda>u. u < (256 :: nat)) (map of_char (toLowerCase s))"
    by (simp add: list_all_iff)
  have "toLowerCase_utf16 toLowercase (map of_char s) = map of_char (toLowerCase s)"
    by (simp add: toLowerCase_utf16_def decode_small [OF small] l encode_small [OF small'])
  then show ?thesis
    using Some
    by (simp add: normalizeString_utf16_def normalizeString_def filter_map_of_char
          trim_utf16_of_char)
qed

lemma example_toLowercase_latin1:
  "list_all (\<lambda>c. c < 256) cps \<Longrightarrow>
     example_toLowercase cps = map (\<lambda>c. of_char (lower_char (char_of c))) cps"
  unfolding example_toLowercase_def lower_char_def Let_def
  by (induction cps) (auto simp: of_char_of)

text \<open>
  Claim C9 says that \<^verbatim>\<open>normalizeString\<close> is idempotent on every string. It is not: in
  \<^verbatim>\<open>"\uD801.\uDC00"\<close> the two surrogates are code points of their own, which lower-casing
  leaves alone; the first pass removes the full stop between them, and the second pass reads
  them as the one code point U+10400, a capital letter, and lower-cases it to U+10428.
\<close>

theorem normalizeString_surrogates_counterexample:
  "normalizeString_utf16 example_toLowercase (Some [0xD801, 0x2E, 0xDC00]) = [0xD801, 0xDC00]
   \<and> normalizeString_utf16 example_toLowercase (Some [0xD801, 0xDC00]) = [0xD801, 0xDC28]
   \<and> \<not> well_formed [0xD801, 0x2E, 0xDC00]"
  by (simp add: utf16_defs well_formed_def)

text \<open>
  Claim C9, as amended. \<^verbatim>\<open>normalizeString\<close> is idempotent on every well-formed string (one
  with no unpaired surrogate) and on \<^verbatim>\<open>undefined\<close>. Two facts of Unicode's lower-casing are
  taken as hypotheses: removing the stripped characters from a lower-cased sequence gives a
  sequence that lower-casing leaves as it is, and lower-casing takes scalar values to scalar
  values.
\<close>

theorem normalizeString_idempotent_well_formed:
  assumes fixed: "\<forall>cps. toLowercase (filter (\<lambda>c. \<not> is_stripped_utf16 c) (toLowercase cps))
                         = filter (\<lambda>c. \<not> is_stripped_utf16 c) (toLowercase cps)"
      and scalar: "\<forall>cps. list_all scalar_value cps \<longrightarrow> list_all scalar_value (toLowercase cps)"
      and wf: "well_formed s"
  shows "normalizeString_utf16 toLowercase (Some (normalizeString_utf16 toLowercase (Some s)))
           = normalizeString_utf16 toLowercase (Some s)
       \<and> normalizeString_utf16 toLowercase (Some (normalizeString_utf16 toLowercase None))
           = normalizeString_utf16 toLowercase None"
proof -
  let ?ns = "\<lambda>c. \<not> is_stripped_utf16 c"
  let ?cps = "toLowercase (StringToCodePoints s)"
  let ?t = "CodePointsToString (filter ?ns ?cps)"
  have sc: "list_all scalar_value ?cps"
    using scalar well_formed_scalar [OF wf] by blast
  then have sc': "list_all scalar_value (filter ?ns ?cps)"
    by (simp add: list_all_iff)
  have first: "filter ?ns (toLowerCase_utf16 toLowercase s) = ?t"
    by (simp add: toLowerCase_utf16_def filter_encode [OF sc])
  have "toLowerCase_utf16 toLowercase ?t = CodePointsToString (toLowercase (filter ?ns ?cps))"
    by (simp add: toLowerCase_utf16_def decode_encode [OF sc'])
  also have "\<dots> = ?t" using fixed by simp
  finally have "filter ?ns (toLowerCase_utf16 toLowercase ?t) = filter ?ns ?t" by simp
  also have "\<dots> = ?t" by (simp add: filter_encode [OF sc'])
  finally have second: "filter ?ns (toLowerCase_utf16 toLowercase ?t) = ?t" .
  show ?thesis
    by (simp add: normalizeString_utf16_Some first second)
      (simp add: normalizeString_utf16_def)
qed

theorem normalizeString_idempotent_well_formed_witness:
  "well_formed [0x41, 0x2E, 0xD801, 0xDC00, 0x3000]
   \<and> normalizeString_utf16 example_toLowercase (Some [0x41, 0x2E, 0xD801, 0xDC00, 0x3000])
       = [0x61, 0xD801, 0xDC28]
   \<and> normalizeString_utf16 example_toLowercase (Some [0x61, 0xD801, 0xDC28])
       = [0x61, 0xD801, 0xDC28]"
proof -
  have h1: "\<forall>cps. example_toLowercase (filter (\<lambda>c. \<not> is_stripped_utf16 c) (example_toLowercase cps))
                         = filter (\<lambda>c. \<not> is_stripped_utf16 c) (example_toLowercase cps)"
    by (simp add: example_toLowercase_fixed)
  have h2: "\<forall>cps. list_all scalar_value cps \<longrightarrow> list_all scalar_value (example_toLowercase cps)"
    by (simp add: example_toLowercase_scalar)
  have h3: "well_formed [0x41, 0x2E, 0xD801, 0xDC00, 0x3000]"
    by (simp add: well_formed_def is_leading_surrogate_def is_trailing_surrogate_def
          is_surrogate_def)
  have e: "normalizeString_utf16 example_toLowercase (Some [0x41, 0x2E, 0xD801, 0xDC00, 0x3000])
       = [0x61, 0xD801, 0xDC28]"
    by (simp add: utf16_defs)
  from normalizeString_idempotent_well_formed [OF h1 h2 h3] e h3 show ?thesis
    by simp
qed

subsection \<open>\<^verbatim>\<open>normalizeUrl\<close>\<close>

lemma before_slash_host:
  "CHR ''/'' \<notin> set h \<Longrightarrow> take 1 rest \<in> {[], ''/''} \<Longrightarrow> before_slash (h @ rest) = h"
  unfolding before_slash_def
  by (induction h) (cases rest; auto)+

lemma strip_scheme_www_parts:
  assumes "scheme \<in> {[], ''http://'', ''https://''}" and "www \<in> {[], ''www.''}"
      and "scheme = [] \<longrightarrow> take 7 (www @ t) \<noteq> ''http://'' \<and> take 8 (www @ t) \<noteq> ''https://''"
      and "www = [] \<longrightarrow> take 4 t \<noteq> ''www.''"
  shows "strip_scheme_www (scheme @ www @ t) = t"
  using assms
  by (auto simp: strip_scheme_www_def strip_prefix_def eval_nat_numeral)

lemma normalizeUrl_unparsed:
  assumes "URL_hostname env u = None"
      and "toLowerCase u = scheme @ www @ h @ rest"
      and "scheme \<in> {[], ''http://'', ''https://''}" and "www \<in> {[], ''www.''}"
      and "scheme = [] \<longrightarrow> take 7 (www @ h @ rest) \<noteq> ''http://''
                             \<and> take 8 (www @ h @ rest) \<noteq> ''https://''"
      and "www = [] \<longrightarrow> take 4 (h @ rest) \<noteq> ''www.''"
      and "CHR ''/'' \<notin> set h" and "take 1 rest \<in> {[], ''/''}"
  shows "normalizeUrl env (Some u) = Inr h"
proof (cases "u = []")
  case True
  with assms(2) have "h = []" by (simp add: toLowerCase_def)
  with True show ?thesis by (simp add: normalizeUrl_def)
next
  case False
  have "strip_scheme_www (toLowerCase u) = h @ rest"
    unfolding assms(2) using assms(3-6) by (rule strip_scheme_www_parts)
  with False assms(1) show ?thesis
    by (simp add: normalizeUrl_def new_URL_def before_slash_host [OF assms(7,8)])
qed

lemma normalizeUrl_parsed:
  assumes "u \<noteq> []"
  shows "URL_hostname env u = Some (''www.'' @ h) \<Longrightarrow> normalizeUrl env (Some u) = Inr h"
    and "URL_hostname env u = Some h \<Longrightarrow> take 4 h \<noteq> ''www.'' \<Longrightarrow> normalizeUrl env (Some u) = Inr h"
  using assms by (simp_all add: normalizeUrl_def new_URL_def strip_prefix_def eval_nat_numeral)

text \<open>
  Claim C8. On a platform whose URL parser reads \<^verbatim>\<open>https://www.Example.com/path\<close> with the
  host name \<^verbatim>\<open>www.example.com\<close> and rejects \<^verbatim>\<open>not a url\<close> (as the URL standard has it),
  \<^verbatim>\<open>normalizeUrl\<close> maps the first to \<^verbatim>\<open>example.com\<close> and the second to itself. On every
  platform:
  \<^item> three inputs that the parser rejects show the lower-casing, the stripping of a scheme
    and of \<^verbatim>\<open>www.\<close>, and the cut at the first slash;
  \<^item> in general, when the lower-cased input that does not parse is an optional
    \<^verbatim>\<open>http://\<close> or \<^verbatim>\<open>https://\<close>, then an optional \<^verbatim>\<open>www.\<close>, then a part \<open>h\<close> without
    a slash, then nothing or a rest that starts with a slash (each optional part being there
    whenever it can), the result is \<open>h\<close>;
  \<^item> an input that parses gives its host name without a leading \<^verbatim>\<open>www.\<close>;
  \<^item> \<^verbatim>\<open>normalizeUrl\<close> returns a string and never throws;
  \<^item> the empty string and \<^verbatim>\<open>undefined\<close> give the empty string.
\<close>

theorem normalizeUrl_spec:
  assumes "URL_hostname env ''https://www.Example.com/path'' = Some ''www.example.com''"
      and "URL_hostname env ''not a url'' = None"
  shows "normalizeUrl env (Some ''https://www.Example.com/path'') = Inr ''example.com''
       \<and> normalizeUrl env (Some ''not a url'') = Inr ''not a url''
       \<and> (\<forall>env'. URL_hostname env' ''HTTPS://WWW.My Shop.COM/a/b'' = None \<longrightarrow>
              normalizeUrl env' (Some ''HTTPS://WWW.My Shop.COM/a/b'') = Inr ''my shop.com'')
       \<and> (\<forall>env'. URL_hostname env' ''http://exa mple.com'' = None \<longrightarrow>
              normalizeUrl env' (Some ''http://exa mple.com'') = Inr ''exa mple.com'')
       \<and> (\<forall>env'. URL_hostname env' ''www.Example.com/path'' = None \<longrightarrow>
              normalizeUrl env' (Some ''www.Example.com/path'') = Inr ''example.com'')
       \<and> (\<forall>env' u scheme www h rest.
              URL_hostname env' u = None
              \<and> toLowerCase u = scheme @ www @ h @ rest
              \<and> scheme \<in> {[], ''http://'', ''https://''} \<and> www \<in> {[], ''www.''}
              \<and> (scheme = [] \<longrightarrow> take 7 (www @ h @ rest) \<noteq> ''http://''
                                  \<and> take 8 (www @ h @ rest) \<noteq> ''https://'')
              \<and> (www = [] \<longrightarrow> take 4 (h @ rest) \<noteq> ''www.'')
              \<and> CHR ''/'' \<notin> set h \<and> take 1 rest \<in> {[], ''/''}
              \<longrightarrow> normalizeUrl env' (Some u) = Inr h)
       \<and> (\<forall>env' u h. u \<noteq> [] \<and> URL_hostname env' u = Some (''www.'' @ h) \<longrightarrow>
              normalizeUrl env' (Some u) = Inr h)
       \<and> (\<forall>env' u h. u \<noteq> [] \<and> URL_hostname env' u = Some h \<and> take 4 h \<noteq> ''www.'' \<longrightarrow>
              normalizeUrl env' (Some u) = Inr h)
       \<and> (\<forall>env' url. \<exists>h. normalizeUrl env' url = Inr h)
       \<and> (\<forall>env'. normalizeUrl env' None = Inr [] \<and> normalizeUrl env' (Some []) = Inr [])"
proof -
  have a: "normalizeUrl env (Some ''https://www.Example.com/path'') = Inr ''example.com''"
    using normalizeUrl_parsed(1) [of "''https://www.Example.com/path''" env "''example.com''"] assms(1)
    by simp
  have l: "toLowerCase ''not a url'' = [] @ [] @ ''not a url'' @ []"
    by code_simp
  have b: "normalizeUrl env (Some ''not a url'') = Inr ''not a url''"
    by (rule normalizeUrl_unparsed [OF assms(2) l]) simp_all
  have l1: "toLowerCase ''HTTPS://WWW.My Shop.COM/a/b'' = ''https://'' @ ''www.'' @ ''my shop.com'' @ ''/a/b''"
    by code_simp
  have c1: "normalizeUrl env' (Some ''HTTPS://WWW.My Shop.COM/a/b'') = Inr ''my shop.com''"
    if "URL_hostname env' ''HTTPS://WWW.My Shop.COM/a/b'' = None" for env'
    by (rule normalizeUrl_unparsed [OF that l1]) simp_all
  have l2: "toLowerCase ''http://exa mple.com'' = ''http://'' @ [] @ ''exa mple.com'' @ []"
    by code_simp
  have c2: "normalizeUrl env' (Some ''http://exa mple.com'') = Inr ''exa mple.com''"
    if "URL_hostname env' ''http://exa mple.com'' = None" for env'
    by (rule normalizeUrl_unparsed [OF that l2]) simp_all
  have l3: "toLowerCase ''www.Example.com/path'' = [] @ ''www.'' @ ''example.com'' @ ''/path''"
    by code_simp
  have c3: "normalizeUrl env' (Some ''www.Example.com/path'') = Inr ''example.com''"
    if "URL_hostname env' ''www.Example.com/path'' = None" for env'
    by (rule normalizeUrl_unparsed [OF that l3]) simp_all
  have d: "\<exists>h. normalizeUrl env' url = Inr h" for env' url
    by (simp add: normalizeUrl_def new_URL_def split: option.split sum.split)
  have e: "normalizeUrl env' None = Inr [] \<and> normalizeUrl env' (Some []) = Inr []" for env'
    by (simp add: normalizeUrl_def)
  from a b c1 c2 c3 d e normalizeUrl_unparsed normalizeUrl_parsed show ?thesis
    by blast
qed

theorem normalizeUrl_spec_witness:
  "URL_hostname example_platform ''https://www.Example.com/path'' = Some ''www.example.com''
   \<and> URL_hostname example_platform ''not a url'' = None
   \<and> normalizeUrl example_platform (Some ''https://www.Example.com/path'') = Inr ''example.com''
   \<and> normalizeUrl example_platform (Some ''not a url'') = Inr ''not a url''
   \<and> normalizeUrl example_platform (Some ''HTTPS://WWW.My Shop.COM/a/b'') = Inr ''my shop.com''
   \<and> normalizeUrl example_platform (Some ''http://exa mple.com'') = Inr ''exa mple.com''
   \<and> normalizeUrl example_platform (Some ''www.Example.com/path'') = Inr ''example.com''"
proof -
  have h1: "URL_hostname example_platform ''https://www.Example.com/path''
              = Some ''www.example.com''"
    by (simp add: example_platform_def)
  have h2: "URL_hostname example_platform ''not a url'' = None"
    by (simp add: example_platform_def)
  have n: "URL_hostname example_platform ''HTTPS://WWW.My Shop.COM/a/b'' = None"
      "URL_hostname example_platform ''http://exa mple.com'' = None"
      "URL_hostname example_platform ''www.Example.com/path'' = None"
    by (simp_all add: example_platform_def)
  note t = normalizeUrl_spec [OF h1 h2]
  have "normalizeUrl example_platform (Some ''HTTPS://WWW.My Shop.COM/a/b'') = Inr ''my shop.com''"
    by (rule t [THEN conjunct2, THEN conjunct2, THEN conjunct1, rule_format, OF n(1)])
  moreover have "normalizeUrl example_platform (Some ''http://exa mple.com'') = Inr ''exa mple.com''"
    by (rule t [THEN conjunct2, THEN conjunct2, THEN conjunct2, THEN conjunct1, rule_format,
          OF n(2)])
  moreover have "normalizeUrl example_platform (Some ''www.Example.com/path'') = Inr ''example.com''"
    by (rule t [THEN conjunct2, THEN conjunct2, THEN conjunct2, THEN conjunct2, THEN conjunct1,
          rule_format, OF n(3)])
  ultimately show ?thesis
    using t [THEN conjunct1] t [THEN conjunct2, THEN conjunct1] h1 h2 by simp
qed

section \<open>The job: properties\<close>

text \<open>
  Claim C7. A record whose normalized website and normalized address are both empty is
  skipped: the job returns the outcome \<open>skipped\<close>, asks nothing of the store (its trace of
  operations is empty) and leaves the authoritative collection as it is, whatever other
  jobs do meanwhile.
\<close>

theorem skipped_without_storage:
  assumes "normalizeUrl env (site_1 r) = Inr []"
      and "normalizeString (full_address_1 r) = []"
  shows "processBubbleData_interleaved env bc coll_r coll_w bid (api_response (Some r)) clock
           = (([], Inr (skipped_result bid)), coll_w)
       \<and> processBubbleData env bc coll bid (api_response (Some r)) clock
           = (([], Inr (skipped_result bid)), coll)
       \<and> res_status (skipped_result bid) = skipped"
  using assms
  by (simp add: processBubbleData_def processBubbleData_interleaved_def
        processBubbleData_read_def processBubbleData_write_def skipped_result_def)

theorem skipped_without_storage_witness:
  "normalizeUrl example_platform (site_1 record_without_key) = Inr []
   \<and> normalizeString (full_address_1 record_without_key) = []
   \<and> processBubbleData example_platform example_businesses [(1, doc_a)] ''C''
        (api_response (Some record_without_key)) (2, 2)
       = (([], Inr (skipped_result ''C'')), [(1, doc_a)])"
proof -
  have h1: "normalizeUrl example_platform (site_1 record_without_key) = Inr []"
    by code_simp
  have h2: "normalizeString (full_address_1 record_without_key) = []"
    by code_simp
  show ?thesis
    using skipped_without_storage [OF h1 h2, of example_businesses _ _ "''C''" "(2, 2)" "[(1, doc_a)]"] h1 h2
    by simp
qed

subsection \<open>The matcher\<close>

lemma direct_id_tier_cases:
  "direct_id_tier bc r (None, unmatched) = (ops, mm) \<Longrightarrow>
     mm = (None, unmatched) \<or> (\<exists>i. mm = (Some i, direct_id))"
  by (auto simp: direct_id_tier_def split: option.splits if_splits)

lemma direct_id_tier_ops:
  "direct_id_tier bc r mm0 = (ops, mm) \<Longrightarrow> Business_find q \<notin> set ops"
  by (auto simp: direct_id_tier_def split: option.splits if_splits)

lemma fallback_tier_cases:
  "fallback_tier env bc r mm0 = (ops, res) \<Longrightarrow>
     (ops = [] \<and> (res = Inr mm0 \<or> (\<exists>e. res = Inl e)))
     \<or> (\<exists>q. ops = [Business_find q]
           \<and> res = Inr (case business_find env bc q of [(i, b)] \<Rightarrow> (Some i, fallback_match) | _ \<Rightarrow> mm0))"
  by (auto simp: fallback_tier_def Let_def split: sum.splits if_splits)

lemma matcher_unfold:
  "matcher env bc r =
     (if fst (snd (direct_id_tier bc r (None, unmatched))) = None
      then (fst (direct_id_tier bc r (None, unmatched)) @ fst (fallback_tier env bc r (snd (direct_id_tier bc r (None, unmatched)))),
            snd (fallback_tier env bc r (snd (direct_id_tier bc r (None, unmatched)))))
      else (fst (direct_id_tier bc r (None, unmatched)), Inr (snd (direct_id_tier bc r (None, unmatched)))))"
  by (simp add: matcher_def Let_def split: prod.splits)

lemma one_result: "(case xs of [(i, b)] \<Rightarrow> f i | _ \<Rightarrow> d) = (if length xs = 1 then f (fst (hd xs)) else d)"
  by (auto split: list.splits)

lemma matcher_fallback:
  assumes "snd (direct_id_tier bc r (None, unmatched)) = (None, unmatched)"
      and "matcher env bc r = (ops, Inr mm)"
  shows "(\<exists>q. Business_find q \<in> set ops) \<and> (\<forall>q. Business_find q \<in> set ops \<longrightarrow> (mm = (case business_find env bc q of [(i, b)] \<Rightarrow> (Some i, fallback_match) | _ \<Rightarrow> (None, unmatched))))
         \<or> (\<forall>q. Business_find q \<notin> set ops) \<and> mm = (None, unmatched)"
proof -
  obtain ops1 where d: "direct_id_tier bc r (None, unmatched) = (ops1, (None, unmatched))"
    using assms(1) by (cases "direct_id_tier bc r (None, unmatched)") auto
  obtain ops2 res where f: "fallback_tier env bc r (None, unmatched) = (ops2, res)"
    by (cases "fallback_tier env bc r (None, unmatched)") auto
  have m: "ops = ops1 @ ops2" "res = Inr mm"
    using assms(2) d f by (auto simp: matcher_unfold)
  have n: "Business_find q \<notin> set ops1" for q
    using direct_id_tier_ops [OF d] .
  from fallback_tier_cases [OF f] show ?thesis
  proof (elim disjE conjE exE)
    assume "ops2 = []" "res = Inr (None, unmatched)"
    then show ?thesis using m n by auto
  next
    fix e assume "res = Inl e"
    then show ?thesis using m by simp
  next
    fix q assume "ops2 = [Business_find q]"
      "res = Inr (case business_find env bc q of [(i, b)] \<Rightarrow> (Some i, fallback_match) | _ \<Rightarrow> (None, unmatched))"
    then show ?thesis using m n by auto
  qed
qed

lemma list_ex_find: "list_ex P xs \<longleftrightarrow> find P xs \<noteq> None"
  by (induction xs) auto

lemma insertOne_findOne:
  "authoritative_insertOne coll d =
     (case authoritative_findOne coll (dedup_key d) of
        None \<Rightarrow> Inr (coll @ [(new_ObjectId coll, d)])
      | Some x \<Rightarrow> Inl MongoServerError_E11000)"
  by (auto simp: authoritative_insertOne_def authoritative_findOne_def list_ex_find
           split: option.splits)

lemma dedup_key_newAuthoritativeDoc [simp]:
  "dedup_key (newAuthoritativeDoc k r bid mm clock) = k"
  by (simp add: dedup_key_def newAuthoritativeDoc_def)

lemma read_lookup_miss:
  assumes "normalizeUrl env (site_1 r) = Inr w"
      and "k = (w, normalizeString (full_address_1 r))"
      and "k \<noteq> ([], [])"
      and "authoritative_findOne coll k = None"
  shows "processBubbleData_read env bc coll bid (api_response (Some r)) clock =
           (Authoritative_findOne k # fst (matcher env bc r),
            case snd (matcher env bc r) of
              Inl e \<Rightarrow> Inl e
            | Inr mm \<Rightarrow> Inr (Insert (newAuthoritativeDoc k r bid mm clock)))"
  using assms
  by (auto simp: processBubbleData_read_def Let_def split: prod.splits sum.splits)

lemma read_lookup_hit:
  assumes "normalizeUrl env (site_1 r) = Inr w"
      and "k = (w, normalizeString (full_address_1 r))"
      and "k \<noteq> ([], [])"
      and "authoritative_findOne coll k = Some (i, d)"
  shows "processBubbleData_read env bc coll bid (api_response (Some r)) clock =
           ([Authoritative_findOne k], Inr (Update i bid))"
  using assms
  by (auto simp: processBubbleData_read_def Let_def)

lemma processBubbleData_new:
  assumes "normalizeUrl env (site_1 r) = Inr w"
      and "k = (w, normalizeString (full_address_1 r))"
      and "k \<noteq> ([], [])"
      and "authoritative_findOne coll k = None"
      and "matcher env bc r = (ops, Inr mm)"
  shows "processBubbleData env bc coll bid (api_response (Some r)) clock =
           ((Authoritative_findOne k # ops
               @ [Authoritative_insertOne (newAuthoritativeDoc k r bid mm clock)],
             Inr (success_result (snd mm) bid)),
            coll @ [(new_ObjectId coll, newAuthoritativeDoc k r bid mm clock)])"
proof -
  have m: "match_type (newAuthoritativeDoc k r bid mm clock) = snd mm"
    by (simp add: newAuthoritativeDoc_def)
  show ?thesis
    using assms(4,5)
    by (simp add: processBubbleData_def processBubbleData_interleaved_def
          read_lookup_miss [OF assms(1-4)] processBubbleData_write_def insertOne_findOne m)
qed

lemma find_unique: "filter P xs = [x] \<Longrightarrow> find P xs = Some x"
proof (induction xs)
  case Nil
  then show ?case by simp
next
  case (Cons y ys)
  show ?case
  proof (cases "P y")
    case True
    with Cons.prems show ?thesis by simp
  next
    case False
    with Cons show ?thesis by simp
  qed
qed

text \<open>
  Claim C3. For a record that reaches the fallback tier (the direct tier found nothing) and
  whose matcher returns: the match type is \<open>fallback_match\<close> exactly when the fallback query
  was sent and its result has exactly one business, whose \<^verbatim>\<open>_id\<close> is then the match; a
  query with no result or with two or more leaves the match \<open>(None, unmatched)\<close>, and so
  does every other way of not getting \<open>fallback_match\<close>. The job of such a record, when its
  key is new, stores that match and returns its match type.
\<close>

theorem fallback_match_exactly_one:
  assumes "snd (direct_id_tier bc r (None, unmatched)) = (None, unmatched)"
      and "matcher env bc r = (ops, Inr mm)"
  shows "(snd mm = fallback_match \<longleftrightarrow>
            (\<exists>q i b. Business_find q \<in> set ops \<and> business_find env bc q = [(i, b)]
                     \<and> mm = (Some i, fallback_match)))
       \<and> (\<forall>q. Business_find q \<in> set ops \<longrightarrow> length (business_find env bc q) \<noteq> 1
              \<longrightarrow> mm = (None, unmatched))
       \<and> (snd mm \<noteq> fallback_match \<longrightarrow> mm = (None, unmatched))
       \<and> (\<forall>coll bid clock w k.
            normalizeUrl env (site_1 r) = Inr w \<and> k = (w, normalizeString (full_address_1 r))
            \<and> k \<noteq> ([], []) \<and> authoritative_findOne coll k = None \<longrightarrow>
            processBubbleData env bc coll bid (api_response (Some r)) clock =
              ((Authoritative_findOne k # ops
                  @ [Authoritative_insertOne (newAuthoritativeDoc k r bid mm clock)],
                Inr (success_result (snd mm) bid)),
               coll @ [(new_ObjectId coll, newAuthoritativeDoc k r bid mm clock)]))"
proof -
  have job: "processBubbleData env bc coll bid (api_response (Some r)) clock =
              ((Authoritative_findOne k # ops
                  @ [Authoritative_insertOne (newAuthoritativeDoc k r bid mm clock)],
                Inr (success_result (snd mm) bid)),
               coll @ [(new_ObjectId coll, newAuthoritativeDoc k r bid mm clock)])"
    if "normalizeUrl env (site_1 r) = Inr w" "k = (w, normalizeString (full_address_1 r))"
       "k \<noteq> ([], [])" "authoritative_findOne coll k = None"
    for coll bid clock w k
    using that assms(2) by (rule processBubbleData_new)
  from matcher_fallback [OF assms] have
    "(snd mm = fallback_match \<longleftrightarrow>
            (\<exists>q i b. Business_find q \<in> set ops \<and> business_find env bc q = [(i, b)]
                     \<and> mm = (Some i, fallback_match)))
       \<and> (\<forall>q. Business_find q \<in> set ops \<longrightarrow> length (business_find env bc q) \<noteq> 1
              \<longrightarrow> mm = (None, unmatched))
       \<and> (snd mm \<noteq> fallback_match \<longrightarrow> mm = (None, unmatched))"
    apply (elim disjE conjE exE)
    subgoal for q
      apply (intro conjI)
      subgoal by (auto split: list.splits)
      subgoal by (auto split: list.splits)
      subgoal by (auto split: list.splits)
      done
    subgoal by auto
    done
  with job show ?thesis by blast
qed

theorem fallback_match_exactly_one_witness:
  "snd (direct_id_tier example_businesses record_a (None, unmatched)) = (None, unmatched)
   \<and> matcher example_platform example_businesses record_a
       = ([Business_find \<lparr>website_regex = ''example.com'',
             or_conditions = [name_regex ''acme'', contact_phone_regex ''5551234567'']\<rparr>],
          Inr (None, unmatched))
   \<and> length (business_find example_platform example_businesses
               \<lparr>website_regex = ''example.com'',
                 or_conditions = [name_regex ''acme'', contact_phone_regex ''5551234567'']\<rparr>) = 2
   \<and> snd (direct_id_tier [hd example_businesses] record_a (None, unmatched)) = (None, unmatched)
   \<and> matcher example_platform [hd example_businesses] record_a
       = ([Business_find \<lparr>website_regex = ''example.com'',
             or_conditions = [name_regex ''acme'', contact_phone_regex ''5551234567'']\<rparr>],
          Inr (Some 1, fallback_match))
   \<and> length (business_find example_platform [hd example_businesses]
               \<lparr>website_regex = ''example.com'',
                 or_conditions = [name_regex ''acme'', contact_phone_regex ''5551234567'']\<rparr>) = 1"
proof -
  let ?q = "\<lparr>website_regex = ''example.com'',
             or_conditions = [name_regex ''acme'', contact_phone_regex ''5551234567'']\<rparr>"
  have g1: "snd (direct_id_tier example_businesses record_a (None, unmatched)) = (None, unmatched)"
    by code_simp
  have g2: "matcher example_platform example_businesses record_a
              = ([Business_find ?q], Inr (None, unmatched))"
    by code_simp
  have g3: "length (business_find example_platform example_businesses ?q) = 2"
    by code_simp
  have h1: "snd (direct_id_tier [hd example_businesses] record_a (None, unmatched)) = (None, unmatched)"
    by code_simp
  have h2: "matcher example_platform [hd example_businesses] record_a
              = ([Business_find ?q], Inr (Some 1, fallback_match))"
    by code_simp
  from fallback_match_exactly_one [OF h1 h2]
  have "\<exists>q i b. Business_find q \<in> set [Business_find ?q]
           \<and> business_find example_platform [hd example_businesses] q = [(i, b)]
           \<and> (Some 1, fallback_match) = (Some i, fallback_match)"
    by simp
  then have "length (business_find example_platform [hd example_businesses] ?q) = 1"
    by auto
  with g1 g2 g3 h1 h2 show ?thesis by simp
qed

lemma direct_id_tier_first_field:
  assumes "Unique_ID_1 r = Some u" and "u \<noteq> []"
  shows "fst (direct_id_tier bc r (None, unmatched)) = [Business_findOne u]"
    and "business_findOne bc u = None \<Longrightarrow> snd (direct_id_tier bc r (None, unmatched)) = (None, unmatched)"
  using assms by (simp_all add: direct_id_tier_def uniqueIdFromBubble_def truthy_def)

text \<open>
  Claim C5. The legacy identifier of a record is its \<^verbatim>\<open>Unique_ID_1\<close> when that is not empty,
  and otherwise its \<^verbatim>\<open>Unique_ID\<close> (line 95). When that identifier is the \<^verbatim>\<open>old_pin_code\<close> of
  exactly one business, the matcher returns \<open>direct_id\<close> with the \<^verbatim>\<open>_id\<close> of that business, and
  the only operation on the business collection is that lookup: the fallback query is not
  sent, whatever the website, name and phone of the record are. The job of such a record,
  when its key is new, inserts a document with that match and returns \<open>direct_id\<close>. A non-empty
  \<^verbatim>\<open>Unique_ID_1\<close> is the only identifier looked up: when no business has it, the direct tier
  finds nothing, whatever \<^verbatim>\<open>Unique_ID\<close> is.
\<close>

theorem direct_id_before_fallback:
  assumes "Unique_ID_1 r = Some u
           \<or> ((Unique_ID_1 r = None \<or> Unique_ID_1 r = Some []) \<and> Unique_ID r = Some u)"
      and "u \<noteq> []"
      and "filter (\<lambda>(i, b). old_pin_code b = Some u) bc = [(i, b)]"
  shows "matcher env bc r = ([Business_findOne u], Inr (Some i, direct_id))
       \<and> (\<forall>coll bid clock w k.
            normalizeUrl env (site_1 r) = Inr w \<and> k = (w, normalizeString (full_address_1 r))
            \<and> k \<noteq> ([], []) \<and> authoritative_findOne coll k = None \<longrightarrow>
            processBubbleData env bc coll bid (api_response (Some r)) clock =
              (([Authoritative_findOne k, Business_findOne u,
                 Authoritative_insertOne (newAuthoritativeDoc k r bid (Some i, direct_id) clock)],
                Inr (success_result direct_id bid)),
               coll @ [(new_ObjectId coll, newAuthoritativeDoc k r bid (Some i, direct_id) clock)]))
       \<and> (\<forall>r' u'. Unique_ID_1 r' = Some u' \<and> u' \<noteq> [] \<longrightarrow>
            fst (direct_id_tier bc r' (None, unmatched)) = [Business_findOne u']
            \<and> (business_findOne bc u' = None \<longrightarrow>
                 snd (direct_id_tier bc r' (None, unmatched)) = (None, unmatched)))"
proof -
  have s: "uniqueIdFromBubble r = Some u"
    using assms(1,2) by (auto simp: uniqueIdFromBubble_def truthy_def)
  have f: "business_findOne bc u = Some (i, b)"
    unfolding business_findOne_def using assms(3) by (rule find_unique)
  have d: "direct_id_tier bc r (None, unmatched) = ([Business_findOne u], (Some i, direct_id))"
    using s assms(2) f by (simp add: direct_id_tier_def)
  have m: "matcher env bc r = ([Business_findOne u], Inr (Some i, direct_id))"
    by (simp add: matcher_unfold d)
  show ?thesis
    using m processBubbleData_new [where env = env and bc = bc and r = r
        and mm = "(Some i, direct_id)" and ops = "[Business_findOne u]"]
      direct_id_tier_first_field [of _ _ bc]
    by auto
qed

theorem direct_id_before_fallback_witness:
  "Unique_ID_1 record_two_identifiers = Some ''P2''
   \<and> Unique_ID record_two_identifiers = Some ''P1''
   \<and> filter (\<lambda>(i, b). old_pin_code b = Some ''P2'') example_businesses
       = [(2, snd (example_businesses ! 1))]
   \<and> fallback_tier example_platform example_businesses record_two_identifiers (None, unmatched)
       = ([Business_find \<lparr>website_regex = ''example.com'', or_conditions = [name_regex ''corp'']\<rparr>],
          Inr (Some 1, fallback_match))
   \<and> matcher example_platform example_businesses record_two_identifiers
       = ([Business_findOne ''P2''], Inr (Some 2, direct_id))
   \<and> Unique_ID_1 record_b = Some [] \<and> Unique_ID record_b = Some ''P1''
   \<and> filter (\<lambda>(i, b). old_pin_code b = Some ''P1'') example_businesses
       = [(1, snd (example_businesses ! 0))]
   \<and> matcher example_platform example_businesses record_b
       = ([Business_findOne ''P1''], Inr (Some 1, direct_id))
   \<and> business_findOne example_businesses ''X9'' = None
   \<and> direct_id_tier example_businesses (record_two_identifiers\<lparr>Unique_ID_1 := Some ''X9''\<rparr>)
        (None, unmatched) = ([Business_findOne ''X9''], (None, unmatched))"
proof -
  have h1: "Unique_ID_1 record_two_identifiers = Some ''P2''
            \<or> ((Unique_ID_1 record_two_identifiers = None
                  \<or> Unique_ID_1 record_two_identifiers = Some [])
                \<and> Unique_ID record_two_identifiers = Some ''P2'')"
    by (simp add: record_two_identifiers_def)
  have h2: "''P2'' \<noteq> []" by simp
  have h3: "filter (\<lambda>(i, b). old_pin_code b = Some ''P2'') example_businesses
              = [(2, snd (example_businesses ! 1))]"
    by code_simp
  have g1: "Unique_ID_1 record_b = Some ''P1''
            \<or> ((Unique_ID_1 record_b = None \<or> Unique_ID_1 record_b = Some [])
                \<and> Unique_ID record_b = Some ''P1'')"
    by (simp add: record_b_def)
  have g2: "''P1'' \<noteq> []" by simp
  have g3: "filter (\<lambda>(i, b). old_pin_code b = Some ''P1'') example_businesses
              = [(1, snd (example_businesses ! 0))]"
    by code_simp
  have fb: "fallback_tier example_platform example_businesses record_two_identifiers (None, unmatched)
       = ([Business_find \<lparr>website_regex = ''example.com'', or_conditions = [name_regex ''corp'']\<rparr>],
          Inr (Some 1, fallback_match))"
    by code_simp
  have x: "business_findOne example_businesses ''X9'' = None"
    by code_simp
  have x1: "Unique_ID_1 (record_two_identifiers\<lparr>Unique_ID_1 := Some ''X9''\<rparr>) = Some ''X9''
            \<and> ''X9'' \<noteq> []"
    by simp
  note t = direct_id_before_fallback [OF h1 h2 h3, of example_platform]
  note t' = direct_id_before_fallback [OF g1 g2 g3, of example_platform]
  have m: "matcher example_platform example_businesses record_two_identifiers
       = ([Business_findOne ''P2''], Inr (Some 2, direct_id))"
    by (rule t [THEN conjunct1])
  have m': "matcher example_platform example_businesses record_b
       = ([Business_findOne ''P1''], Inr (Some 1, direct_id))"
    by (rule t' [THEN conjunct1])
  have d: "direct_id_tier example_businesses (record_two_identifiers\<lparr>Unique_ID_1 := Some ''X9''\<rparr>)
        (None, unmatched) = ([Business_findOne ''X9''], (None, unmatched))"
    using t [THEN conjunct2, THEN conjunct2, rule_format, OF x1] x
    by (simp add: prod_eq_iff)
  show ?thesis
    using h3 g3 fb m m' x d by (simp add: record_two_identifiers_def record_b_def)
qed

lemma matcher_result:
  assumes "matcher env bc r = (ops, Inr mm)"
  shows "mm = (None, unmatched) \<or> (\<exists>i. mm = (Some i, direct_id)) \<or> (\<exists>i. mm = (Some i, fallback_match))"
proof -
  obtain ops1 mm1 where d: "direct_id_tier bc r (None, unmatched) = (ops1, mm1)"
    by (cases "direct_id_tier bc r (None, unmatched)") auto
  from direct_id_tier_cases [OF d] show ?thesis
  proof
    assume "mm1 = (None, unmatched)"
    then have "snd (direct_id_tier bc r (None, unmatched)) = (None, unmatched)"
      using d by simp
    from matcher_fallback [OF this assms] show ?thesis
      unfolding one_result by (elim disjE conjE exE) (auto split: if_splits)
  next
    assume "\<exists>i. mm1 = (Some i, direct_id)"
    then show ?thesis using assms d by (auto simp: matcher_unfold)
  qed
qed

lemma read_insert:
  assumes "processBubbleData_read env bc coll bid fetched clock = (ops, Inr (Insert d))"
  shows "\<exists>r k mops mm. fetched = api_response (Some r) \<and> matcher env bc r = (mops, Inr mm)
           \<and> d = newAuthoritativeDoc k r bid mm clock \<and> ops = Authoritative_findOne k # mops
           \<and> normalizeUrl env (site_1 r) = Inr (fst k) \<and> snd k = normalizeString (full_address_1 r)
           \<and> k \<noteq> ([], []) \<and> authoritative_findOne coll k = None"
  using assms
  by (auto simp: processBubbleData_read_def Let_def
           split: fetch_result.splits option.splits sum.splits if_splits prod.splits)

lemma read_ops_no_write:
  "processBubbleData_read env bc coll bid fetched clock = (ops, res) \<Longrightarrow> op \<in> set ops \<Longrightarrow> \<not> is_write op"
  by (auto simp: processBubbleData_read_def Let_def matcher_unfold direct_id_tier_def fallback_tier_def
           split: fetch_result.splits option.splits sum.splits if_splits prod.splits)

lemma interleaved_insert:
  assumes "processBubbleData_interleaved env bc coll_r coll_w bid fetched clock = ((ops, res), coll')"
      and "Authoritative_insertOne d \<in> set ops"
  shows "\<exists>rops. processBubbleData_read env bc coll_r bid fetched clock = (rops, Inr (Insert d))
           \<and> ops = rops @ [Authoritative_insertOne d]
           \<and> ((res = Inr (success_result (match_type d) bid)
                 \<and> authoritative_insertOne coll_w d = Inr coll'
                 \<and> coll' = coll_w @ [(new_ObjectId coll_w, d)])
               \<or> (res = Inl MongoServerError_E11000
                 \<and> authoritative_insertOne coll_w d = Inl MongoServerError_E11000
                 \<and> coll' = coll_w))"
proof -
  obtain rops rres where r: "processBubbleData_read env bc coll_r bid fetched clock = (rops, rres)"
    by (cases "processBubbleData_read env bc coll_r bid fetched clock") auto
  have nw: "Authoritative_insertOne d \<notin> set rops"
    using read_ops_no_write [OF r, of "Authoritative_insertOne d"] by auto
  show ?thesis
  proof (cases rres)
    case (Inl e)
    with assms r nw show ?thesis
      by (simp add: processBubbleData_interleaved_def)
  next
    case (Inr p)
    with assms r nw show ?thesis
      by (cases p)
        (auto simp: processBubbleData_interleaved_def processBubbleData_write_def
           authoritative_insertOne_def split: sum.splits if_splits)
  qed
qed

text \<open>
  Claim C10. A document that a job asks the store to insert has \<^verbatim>\<open>bubble_ids\<close> equal to the
  list of the job's identifier alone, and its \<^verbatim>\<open>mongo_business_id\<close> is set exactly when its
  match type is \<open>direct_id\<close> or \<open>fallback_match\<close>, and is null exactly when the match type is
  \<open>unmatched\<close>. When the store accepts it, it is the new last document of the collection.
\<close>
theorem inserted_document_shape:
  assumes "processBubbleData_interleaved env bc coll_r coll_w bid fetched clock = ((ops, res), coll')"
      and "Authoritative_insertOne d \<in> set ops"
  shows "bubble_ids d = [bid]
       \<and> (mongo_business_id d \<noteq> None \<longleftrightarrow> match_type d = direct_id \<or> match_type d = fallback_match)
       \<and> (mongo_business_id d = None \<longleftrightarrow> match_type d = unmatched)
       \<and> ((res = Inr (success_result (match_type d) bid)
             \<and> coll' = coll_w @ [(new_ObjectId coll_w, d)])
           \<or> (res = Inl MongoServerError_E11000 \<and> coll' = coll_w))"
proof -
  from interleaved_insert [OF assms] obtain rops where
    r: "processBubbleData_read env bc coll_r bid fetched clock = (rops, Inr (Insert d))" and
    w: "(res = Inr (success_result (match_type d) bid) \<and> coll' = coll_w @ [(new_ObjectId coll_w, d)])
           \<or> (res = Inl MongoServerError_E11000 \<and> coll' = coll_w)"
    by blast
  from read_insert [OF r] obtain r' k mops mm where
    m: "matcher env bc r' = (mops, Inr mm)" and d: "d = newAuthoritativeDoc k r' bid mm clock"
    by blast
  from matcher_result [OF m] d have
    "bubble_ids d = [bid]"
    "mongo_business_id d \<noteq> None \<longleftrightarrow> match_type d = direct_id \<or> match_type d = fallback_match"
    "mongo_business_id d = None \<longleftrightarrow> match_type d = unmatched"
    by (auto simp: newAuthoritativeDoc_def)
  with w show ?thesis by blast
qed

theorem inserted_document_shape_witness:
  "processBubbleData_interleaved example_platform example_businesses [] [] ''B''
       (api_response (Some record_b)) (1, 1)
     = (([Authoritative_findOne (''example.com'', ''1mainst''), Business_findOne ''P1'',
          Authoritative_insertOne doc_b],
         Inr (success_result direct_id ''B'')), [(1, doc_b)])
   \<and> bubble_ids doc_b = [''B'']
   \<and> mongo_business_id doc_b \<noteq> None
   \<and> match_type doc_b = direct_id"
proof -
  have h1: "processBubbleData_interleaved example_platform example_businesses [] [] ''B''
       (api_response (Some record_b)) (1, 1)
     = (([Authoritative_findOne (''example.com'', ''1mainst''), Business_findOne ''P1'',
          Authoritative_insertOne doc_b],
         Inr (success_result direct_id ''B'')), [(1, doc_b)])"
    by code_simp
  have h2: "Authoritative_insertOne doc_b
              \<in> set [Authoritative_findOne (''example.com'', ''1mainst''), Business_findOne ''P1'',
                     Authoritative_insertOne doc_b]"
    by simp
  have m: "match_type doc_b = direct_id" by code_simp
  from inserted_document_shape [OF h1 h2] m h1 show ?thesis by simp
qed

lemma queryConditions_nonempty:
  "(\<exists>conds. queryConditions env r = Inr conds \<and> conds \<noteq> []) \<longleftrightarrow>
     ((truthy (name_1 r) \<or> (\<exists>p. phone_1 r = Some p \<and> 7 \<le> length (filter is_digit p)))
      \<and> (truthy (name_1 r) \<longrightarrow> RegExp_valid env (normalizeString (name_1 r))))"
  by (auto simp: queryConditions_def name_condition_def phone_condition_def Let_def
           split: option.splits sum.splits if_splits)

lemma fallback_tier_executed:
  "(\<exists>q. Business_find q \<in> set (fst (fallback_tier env bc r mm0))) \<longleftrightarrow>
     ((\<exists>conds. queryConditions env r = Inr conds \<and> conds \<noteq> [])
      \<and> (\<exists>w. normalizeUrl env (site_1 r) = Inr w \<and> RegExp_valid env w))"
  by (auto simp: fallback_tier_def Let_def split: sum.splits if_splits)

lemma fallback_tier_query:
  "Business_find q \<in> set (fst (fallback_tier env bc r mm0)) \<Longrightarrow>
     normalizeUrl env (site_1 r) = Inr (website_regex q) \<and> queryConditions env r = Inr (or_conditions q)"
  by (auto simp: fallback_tier_def Let_def split: sum.splits if_splits)

lemma direct_id_tier_no_find [simp]: "Business_find q \<notin> set (fst (direct_id_tier bc r mm0))"
  using direct_id_tier_ops [of bc r mm0] by (cases "direct_id_tier bc r mm0") auto

lemma direct_id_tier_fst_None:
  "fst (snd (direct_id_tier bc r (None, unmatched))) = None \<longleftrightarrow>
   snd (direct_id_tier bc r (None, unmatched)) = (None, unmatched)"
  using direct_id_tier_cases [of bc r] by (cases "direct_id_tier bc r (None, unmatched)") auto

text \<open>
  Claim C4 says that the fallback query is sent only for a record with a non-empty website.
  The code has no such condition: a record with no website, an address and a name sends the
  query with the empty pattern for the website, which matches every website, and here it
  even gives a \<open>fallback_match\<close>.
\<close>

theorem fallback_without_website_counterexample:
  "\<not> truthy (site_1 record_without_website)
   \<and> matcher example_platform example_businesses record_without_website
       = ([Business_find \<lparr>website_regex = [], or_conditions = [name_regex ''corp'']\<rparr>],
          Inr (Some 1, fallback_match))"
  by code_simp

text \<open>
  Claim C4, as amended. The fallback query is sent exactly when the direct tier found no
  business, the record has a secondary field (a non-empty name, or a phone with at least
  7 digits) and the patterns compile. The website is not looked at: the pattern for the
  website is whatever \<^verbatim>\<open>normalizeUrl\<close> gives, the empty pattern for an empty website.
\<close>
theorem fallback_query_executed_iff:
  "((\<exists>q. Business_find q \<in> set (fst (matcher env bc r))) \<longleftrightarrow>
      (snd (direct_id_tier bc r (None, unmatched)) = (None, unmatched)
       \<and> (truthy (name_1 r) \<or> (\<exists>p. phone_1 r = Some p \<and> 7 \<le> length (filter is_digit p)))
       \<and> (truthy (name_1 r) \<longrightarrow> RegExp_valid env (normalizeString (name_1 r)))
       \<and> (\<exists>w. normalizeUrl env (site_1 r) = Inr w \<and> RegExp_valid env w)))
   \<and> (\<forall>q. Business_find q \<in> set (fst (matcher env bc r)) \<longrightarrow>
          normalizeUrl env (site_1 r) = Inr (website_regex q)
          \<and> (\<not> truthy (site_1 r) \<longrightarrow> website_regex q = []))"
proof -
  have a: "(\<exists>q. Business_find q \<in> set (fst (matcher env bc r))) \<longleftrightarrow>
      (snd (direct_id_tier bc r (None, unmatched)) = (None, unmatched)
       \<and> (\<exists>q. Business_find q \<in> set (fst (fallback_tier env bc r (None, unmatched)))))"
    by (auto simp: matcher_unfold direct_id_tier_fst_None)
  have b: "normalizeUrl env (site_1 r) = Inr (website_regex q)"
    if "Business_find q \<in> set (fst (matcher env bc r))" for q
    using that fallback_tier_query [of q env bc r]
    by (auto simp: matcher_unfold split: if_splits)
  have c: "website_regex q = []"
    if "Business_find q \<in> set (fst (matcher env bc r))" "\<not> truthy (site_1 r)" for q
    using b [OF that(1)] that(2)
    by (auto simp: normalizeUrl_def truthy_def split: option.splits if_splits)
  show ?thesis
    unfolding a fallback_tier_executed queryConditions_nonempty
    using b c by blast
qed

theorem fallback_query_executed_iff_witness:
  "snd (direct_id_tier example_businesses record_without_website (None, unmatched)) = (None, unmatched)
   \<and> truthy (name_1 record_without_website)
   \<and> normalizeUrl example_platform (site_1 record_without_website) = Inr []
   \<and> (\<exists>q. Business_find q
              \<in> set (fst (matcher example_platform example_businesses record_without_website)))"
proof -
  have h1: "snd (direct_id_tier example_businesses record_without_website (None, unmatched))
              = (None, unmatched)"
    by code_simp
  have h2: "truthy (name_1 record_without_website)"
    by code_simp
  have h3: "normalizeUrl example_platform (site_1 record_without_website) = Inr []"
    by code_simp
  have h4: "RegExp_valid example_platform p" for p
    by (simp add: example_platform_def)
  show ?thesis
    using fallback_query_executed_iff [of example_platform example_businesses record_without_website]
      h1 h2 h3 h4
    by simp
qed

subsection \<open>The authoritative collection\<close>

lemma addToSet_set [simp]: "set (addToSet xs x) = insert x (set xs)"
  by (auto simp: addToSet_def)

lemma addToSet_idem [simp]: "addToSet (addToSet xs x) x = addToSet xs x"
  by (simp add: addToSet_def)

lemma addToSet_distinct: "distinct xs \<Longrightarrow> distinct (addToSet xs x)"
  by (simp add: addToSet_def)

lemma addToSet_count: "count_list (addToSet xs x) x = (if x \<in> set xs then count_list xs x else 1)"
  by (simp add: addToSet_def)

lemma updateOne_ids [simp]: "map fst (authoritative_updateOne coll i b) = map fst coll"
  by (induction coll i b rule: authoritative_updateOne.induct) auto

lemma updateOne_keys [simp]:
  "map (\<lambda>(i, d). dedup_key d) (authoritative_updateOne coll i b) = map (\<lambda>(i, d). dedup_key d) coll"
  by (induction coll i b rule: authoritative_updateOne.induct) (auto simp: dedup_key_def)

lemma updateOne_idem [simp]:
  "authoritative_updateOne (authoritative_updateOne coll i b) i b = authoritative_updateOne coll i b"
  by (induction coll i b rule: authoritative_updateOne.induct) auto

lemma findOne_mem: "authoritative_findOne coll k = Some (i, d) \<Longrightarrow> (i, d) \<in> set coll \<and> dedup_key d = k"
  unfolding authoritative_findOne_def
  by (induction coll) (auto split: if_splits)

lemma dedup_key_update [simp]: "dedup_key (d\<lparr>bubble_ids := xs\<rparr>) = dedup_key d"
  by (simp add: dedup_key_def)

lemma findOne_updateOne:
  assumes "unique_ids coll" and "authoritative_findOne coll k = Some (i, d)"
  shows "authoritative_findOne (authoritative_updateOne coll i b) k
           = Some (i, d\<lparr>bubble_ids := addToSet (bubble_ids d) b\<rparr>)"
  using assms
proof (induction coll)
  case Nil
  then show ?case by (simp add: authoritative_findOne_def)
next
  case (Cons x coll)
  obtain j e where x: "x = (j, e)" by (cases x)
  show ?case
  proof (cases "dedup_key e = k")
    case True
    with Cons.prems x show ?thesis
      by (simp add: authoritative_findOne_def)
  next
    case False
    with Cons.prems x have f: "authoritative_findOne coll k = Some (i, d)"
      by (simp add: authoritative_findOne_def)
    then have "(i, d) \<in> set coll" by (simp add: findOne_mem)
    then have "i \<in> fst ` set coll" by force
    with Cons.prems(1) x have ne: "j \<noteq> i" by (auto simp: unique_ids_def)
    from Cons.prems(1) have "unique_ids coll" by (simp add: unique_ids_def)
    from Cons.IH [OF this f] False ne x show ?thesis
      by (simp add: authoritative_findOne_def)
  qed
qed

lemma updateOne_others:
  "(j, e) \<in> set coll \<Longrightarrow> j \<noteq> i \<Longrightarrow> (j, e) \<in> set (authoritative_updateOne coll i b)"
  by (induction coll i b rule: authoritative_updateOne.induct) auto

lemma duplicate_run:
  assumes "unique_ids coll"
      and "normalizeUrl env (site_1 r) = Inr w"
      and "k = (w, normalizeString (full_address_1 r))"
      and "k \<noteq> ([], [])"
      and "authoritative_findOne coll k = Some (i, d)"
  shows "processBubbleData env bc coll bid (api_response (Some r)) clock =
           (([Authoritative_findOne k, Authoritative_updateOne i bid],
             Inr (success_result duplicate bid)),
            authoritative_updateOne coll i bid)"
    and "authoritative_findOne (authoritative_updateOne coll i bid) k
           = Some (i, d\<lparr>bubble_ids := addToSet (bubble_ids d) bid\<rparr>)"
proof -
  show "processBubbleData env bc coll bid (api_response (Some r)) clock =
           (([Authoritative_findOne k, Authoritative_updateOne i bid],
             Inr (success_result duplicate bid)),
            authoritative_updateOne coll i bid)"
    by (simp add: processBubbleData_def processBubbleData_interleaved_def
          read_lookup_hit [OF assms(2-5)] processBubbleData_write_def)
  show "authoritative_findOne (authoritative_updateOne coll i bid) k
           = Some (i, d\<lparr>bubble_ids := addToSet (bubble_ids d) bid\<rparr>)"
    using assms(1,5) by (rule findOne_updateOne)
qed



lemma fold_max_init: "m \<le> fold max xs (m::nat)"
proof (induction xs arbitrary: m)
  case Nil
  then show ?case by simp
next
  case (Cons x xs)
  have "m \<le> max x m" by simp
  also have "\<dots> \<le> fold max xs (max x m)" by (rule Cons.IH)
  finally show ?case by simp
qed

lemma fold_max_elem: "x \<in> set xs \<Longrightarrow> x \<le> fold max xs (m::nat)"
proof (induction xs arbitrary: m)
  case Nil
  then show ?case by simp
next
  case (Cons y ys)
  show ?case
  proof (cases "x = y")
    case True
    have "x \<le> max y m" using True by simp
    also have "\<dots> \<le> fold max ys (max y m)" by (rule fold_max_init)
    finally show ?thesis by simp
  next
    case False
    with Cons show ?thesis by simp
  qed
qed

lemma new_ObjectId_fresh: "new_ObjectId coll \<notin> fst ` set coll"
proof
  assume "new_ObjectId coll \<in> fst ` set coll"
  then have "new_ObjectId coll \<in> set (map fst coll)" by simp
  from fold_max_elem [OF this, of 0] show False
    by (simp add: new_ObjectId_def)
qed

lemma insertOne_unique_index:
  "unique_index coll \<Longrightarrow> authoritative_insertOne coll d = Inr coll' \<Longrightarrow> unique_index coll'"
  by (fastforce simp: authoritative_insertOne_def unique_index_def list_ex_iff split: if_splits)

lemma insertOne_unique_ids:
  "unique_ids coll \<Longrightarrow> authoritative_insertOne coll d = Inr coll' \<Longrightarrow> unique_ids coll'"
  using new_ObjectId_fresh [of coll]
  by (auto simp: authoritative_insertOne_def unique_ids_def split: if_splits)

lemma write_unique_index:
  "unique_index coll \<Longrightarrow> unique_index (snd (processBubbleData_write coll bid p))"
  by (cases p) (auto simp: processBubbleData_write_def unique_index_def
                  dest: insertOne_unique_index [unfolded unique_index_def] split: sum.splits)

lemma write_unique_ids:
  "unique_ids coll \<Longrightarrow> unique_ids (snd (processBubbleData_write coll bid p))"
  by (cases p) (auto simp: processBubbleData_write_def unique_ids_def
                  dest: insertOne_unique_ids [unfolded unique_ids_def] split: sum.splits)

lemma insertOne_rejected:
  "authoritative_insertOne coll d = Inl e \<Longrightarrow>
     e = MongoServerError_E11000 \<and> (\<exists>i d'. authoritative_findOne coll (dedup_key d) = Some (i, d'))"
  by (auto simp: insertOne_findOne split: option.splits)

text \<open>
  Claim C1 says that the job recovers from a rejected insert by an update and never passes
  the rejection on. The code has no handler for it: the \<^verbatim>\<open>catch\<close> block logs every error and
  throws it on. Here job B looked up the key in the empty collection, job A then inserted
  its document, and the insert of job B is rejected: job B ends with the store's error,
  and \<^verbatim>\<open>B\<close> is not in the \<^verbatim>\<open>bubble_ids\<close> of the document.
\<close>

theorem insert_rejection_counterexample:
  "snd (processBubbleData example_platform example_businesses [] ''A''
          (api_response (Some record_a)) (0, 0)) = [(1, doc_a)]
   \<and> processBubbleData_interleaved example_platform example_businesses [] [(1, doc_a)] ''B''
        (api_response (Some record_b)) (1, 1)
       = (([Authoritative_findOne (''example.com'', ''1mainst''), Business_findOne ''P1'',
            Authoritative_insertOne doc_b],
           Inl MongoServerError_E11000),
          [(1, doc_a)])
   \<and> bubble_ids doc_a = [''A'']"
  by code_simp

text \<open>
  Claim C1, as amended. When the store rejects the insert of a job (a document with the same
  key has appeared since the job's lookup), the job throws the store's error on to its caller
  and leaves the collection as it is. The document with that key is then in the collection,
  so running the job again on it takes the duplicate path: it adds the identifier to the
  \<^verbatim>\<open>bubble_ids\<close> of that document and returns \<open>duplicate\<close>.
\<close>
theorem insert_rejection_rethrown:
  assumes "processBubbleData_read env bc coll_r bid fetched clock = (ops, Inr (Insert newDoc))"
      and "authoritative_insertOne coll_w newDoc = Inl e"
      and "unique_ids coll_w"
  shows "processBubbleData_interleaved env bc coll_r coll_w bid fetched clock
           = ((ops @ [Authoritative_insertOne newDoc], Inl MongoServerError_E11000), coll_w)
       \<and> (\<exists>i d. authoritative_findOne coll_w (dedup_key newDoc) = Some (i, d)
              \<and> (\<forall>clock'. processBubbleData env bc coll_w bid fetched clock'
                     = (([Authoritative_findOne (dedup_key newDoc), Authoritative_updateOne i bid],
                         Inr (success_result duplicate bid)),
                        authoritative_updateOne coll_w i bid))
              \<and> authoritative_findOne (authoritative_updateOne coll_w i bid) (dedup_key newDoc)
                   = Some (i, d\<lparr>bubble_ids := addToSet (bubble_ids d) bid\<rparr>)
              \<and> bid \<in> set (addToSet (bubble_ids d) bid))"
proof -
  from insertOne_rejected [OF assms(2)] obtain i d where
    e: "e = MongoServerError_E11000" and
    f: "authoritative_findOne coll_w (dedup_key newDoc) = Some (i, d)"
    by blast
  have first: "processBubbleData_interleaved env bc coll_r coll_w bid fetched clock
           = ((ops @ [Authoritative_insertOne newDoc], Inl MongoServerError_E11000), coll_w)"
    using assms(1,2) e
    by (simp add: processBubbleData_interleaved_def processBubbleData_write_def)
  from read_insert [OF assms(1)] obtain r k mops mm where
    fe: "fetched = api_response (Some r)" and
    d: "newDoc = newAuthoritativeDoc k r bid mm clock" and
    w: "normalizeUrl env (site_1 r) = Inr (fst k)" and
    a: "snd k = normalizeString (full_address_1 r)" and
    ne: "k \<noteq> ([], [])"
    by blast
  have k: "dedup_key newDoc = k" using d by simp
  have k2: "k = (fst k, normalizeString (full_address_1 r))"
    using a by (cases k) simp
  have f': "authoritative_findOne coll_w k = Some (i, d)" using f k by simp
  note run = duplicate_run [OF assms(3) w k2 ne f']
  show ?thesis
    using first f run fe k by auto
qed

theorem insert_rejection_rethrown_witness:
  "processBubbleData_read example_platform example_businesses [] ''B''
       (api_response (Some record_b)) (1, 1)
     = ([Authoritative_findOne (''example.com'', ''1mainst''), Business_findOne ''P1''],
        Inr (Insert doc_b))
   \<and> authoritative_insertOne [(1, doc_a)] doc_b = Inl MongoServerError_E11000
   \<and> unique_ids [(1, doc_a)]
   \<and> processBubbleData_interleaved example_platform example_businesses [] [(1, doc_a)] ''B''
        (api_response (Some record_b)) (1, 1)
       = (([Authoritative_findOne (''example.com'', ''1mainst''), Business_findOne ''P1'',
            Authoritative_insertOne doc_b],
           Inl MongoServerError_E11000),
          [(1, doc_a)])
   \<and> processBubbleData example_platform example_businesses [(1, doc_a)] ''B''
        (api_response (Some record_b)) (7, 7)
       = (([Authoritative_findOne (dedup_key doc_b), Authoritative_updateOne 1 ''B''],
           Inr (success_result duplicate ''B'')),
          authoritative_updateOne [(1, doc_a)] 1 ''B'')"
proof -
  have h1: "processBubbleData_read example_platform example_businesses [] ''B''
       (api_response (Some record_b)) (1, 1)
     = ([Authoritative_findOne (''example.com'', ''1mainst''), Business_findOne ''P1''],
        Inr (Insert doc_b))"
    by code_simp
  have h2: "authoritative_insertOne [(1, doc_a)] doc_b = Inl MongoServerError_E11000"
    by code_simp
  have h3: "unique_ids [(1, doc_a)]"
    by (simp add: unique_ids_def)
  have f: "authoritative_findOne [(1, doc_a)] (dedup_key doc_b) = Some (1, doc_a)"
    by code_simp
  from insert_rejection_rethrown [OF h1 h2 h3] f
  have "processBubbleData_interleaved example_platform example_businesses [] [(1, doc_a)] ''B''
        (api_response (Some record_b)) (1, 1)
       = (([Authoritative_findOne (''example.com'', ''1mainst''), Business_findOne ''P1'']
             @ [Authoritative_insertOne doc_b],
           Inl MongoServerError_E11000),
          [(1, doc_a)])"
    and "processBubbleData example_platform example_businesses [(1, doc_a)] ''B''
        (api_response (Some record_b)) (7, 7)
       = (([Authoritative_findOne (dedup_key doc_b), Authoritative_updateOne 1 ''B''],
           Inr (success_result duplicate ''B'')),
          authoritative_updateOne [(1, doc_a)] 1 ''B'')"
    by auto
  with h1 h2 h3 show ?thesis by simp
qed

section \<open>The worker: properties\<close>

lemma job_step_coll:
  "fst (job_step env bc coll j) = coll
   \<or> (\<exists>bid p later. j = Awaiting_write bid p later
         \<and> fst (job_step env bc coll j) = snd (processBubbleData_write coll bid p))"
  by (cases j) (auto split: sum.splits pending.splits prod.splits)

lemma job_step_unique_index:
  "unique_index coll \<Longrightarrow> unique_index (fst (job_step env bc coll j))"
  using write_unique_index [of coll] job_step_coll [of env bc coll j] by auto

lemma job_step_unique_ids:
  "unique_ids coll \<Longrightarrow> unique_ids (fst (job_step env bc coll j))"
  using write_unique_ids [of coll] job_step_coll [of env bc coll j] by auto

lemma worker_run_unique_index:
  "unique_index coll \<Longrightarrow> unique_index (fst (worker_run env bc schedule (coll, jobs)))"
proof (induction schedule arbitrary: coll jobs)
  case Nil
  then show ?case by simp
next
  case (Cons n schedule)
  show ?case
  proof (cases "n < length jobs")
    case True
    obtain coll' j where s: "job_step env bc coll (jobs ! n) = (coll', j)"
      by (cases "job_step env bc coll (jobs ! n)") auto
    have "unique_index coll'"
      using job_step_unique_index [OF Cons.prems, of env bc "jobs ! n"] s by simp
    from Cons.IH [OF this] True s show ?thesis by simp
  next
    case False
    with Cons show ?thesis by simp
  qed
qed

lemma worker_run_unique_ids:
  "unique_ids coll \<Longrightarrow> unique_ids (fst (worker_run env bc schedule (coll, jobs)))"
proof (induction schedule arbitrary: coll jobs)
  case Nil
  then show ?case by simp
next
  case (Cons n schedule)
  show ?case
  proof (cases "n < length jobs")
    case True
    obtain coll' j where s: "job_step env bc coll (jobs ! n) = (coll', j)"
      by (cases "job_step env bc coll (jobs ! n)") auto
    have "unique_ids coll'"
      using job_step_unique_ids [OF Cons.prems, of env bc "jobs ! n"] s by simp
    from Cons.IH [OF this] True s show ?thesis by simp
  next
    case False
    with Cons show ?thesis by simp
  qed
qed


lemma grows_refl: "grows coll coll"
  by (auto simp: grows_def list_all_iff list_ex_iff)

lemma grows_updateOne: "grows coll (authoritative_updateOne coll i b)"
proof -
  have "\<exists>d'. (j, d') \<in> set (authoritative_updateOne coll i b) \<and> dedup_key d' = dedup_key d
              \<and> set (bubble_ids d) \<subseteq> set (bubble_ids d')"
    if "(j, d) \<in> set coll" for j d
    using that
    by (induction coll i b rule: authoritative_updateOne.induct) (auto simp: addToSet_set)
  then show ?thesis
    by (fastforce simp: grows_def list_all_iff list_ex_iff)
qed

lemma grows_append: "grows coll (coll @ xs)"
  by (auto simp: grows_def list_all_iff list_ex_iff)

lemma grows_write: "grows coll (snd (processBubbleData_write coll bid p))"
  by (cases p)
    (auto simp: processBubbleData_write_def grows_refl grows_updateOne grows_append
       authoritative_insertOne_def split: sum.splits if_splits)

lemma grows_step: "grows coll (fst (job_step env bc coll j))"
  using job_step_coll [of env bc coll j] grows_write [of coll] grows_refl [of coll] by auto

lemma grows_trans: "grows a b \<Longrightarrow> grows b c \<Longrightarrow> grows a c"
  unfolding grows_def list_all_iff list_ex_iff
  by (fastforce intro: subset_trans)

lemma invariant_grows:
  assumes "job_invariant env k bid coll j" and "grows coll coll'"
  shows "job_invariant env k bid coll' j"
proof (cases j)
  case (Queued b f c l)
  with assms show ?thesis by simp
next
  case (Awaiting_write b p l)
  with assms show ?thesis
    by (cases p) (fastforce simp: grows_def list_all_iff list_ex_iff)+
next
  case (Completed res)
  with assms show ?thesis
    by (fastforce simp: recorded_def grows_def list_all_iff list_ex_iff)
next
  case (Failed e)
  then show ?thesis by simp
qed

lemma updateOne_hits:
  assumes "unique_ids coll" and "(i, d) \<in> set coll"
  shows "(i, d\<lparr>bubble_ids := addToSet (bubble_ids d) b\<rparr>) \<in> set (authoritative_updateOne coll i b)"
  using assms
proof (induction coll)
  case Nil
  then show ?case by simp
next
  case (Cons x coll)
  obtain j e where x: "x = (j, e)" by (cases x)
  show ?case
  proof (cases "j = i")
    case True
    with Cons.prems x have "(i, d) = (j, e)"
      by (force simp: unique_ids_def)
    with x show ?thesis by simp
  next
    case False
    with Cons x show ?thesis by (auto simp: unique_ids_def)
  qed
qed

lemma invariant_retry:
  "k \<noteq> ([], []) \<Longrightarrow> list_all (\<lambda>(f, c). fetches_key env k f) later \<Longrightarrow>
     job_invariant env k bid coll (retry bid e later)"
  by (cases later) (auto simp: retry_def)

lemma invariant_step:
  assumes "unique_ids coll" and "job_invariant env k bid coll j"
  shows "job_invariant env k bid (fst (job_step env bc coll j)) (snd (job_step env bc coll j))"
proof (cases j)
  case (Queued b f c later)
  with assms(2) have b: "b = bid" and ne: "k \<noteq> ([], [])" and fk: "fetches_key env k f"
    and l: "list_all (\<lambda>(f, c). fetches_key env k f) later"
    by auto
  note re = invariant_retry [OF ne l, of bid coll]
  show ?thesis
  proof (cases f)
    case (axios_throws st)
    with Queued b re show ?thesis
      by (simp add: processBubbleData_read_def)
  next
    case (api_response ro)
    with fk obtain r where
      f: "f = api_response (Some r)" and
      w: "normalizeUrl env (site_1 r) = Inr (fst k)" and
      a: "normalizeString (full_address_1 r) = snd k"
      by (auto simp: fetches_key_def split: option.splits)
    have k2: "k = (fst k, normalizeString (full_address_1 r))"
      using a by (cases k) simp
    show ?thesis
    proof (cases "authoritative_findOne coll k")
      case None
      show ?thesis
        using Queued f b ne l re read_lookup_miss [OF w k2 ne None, of bc bid c]
        by (auto simp: newAuthoritativeDoc_def dedup_key_def split: sum.splits)
    next
      case (Some x)
      obtain i d where x: "x = (i, d)" by (cases x)
      from findOne_mem [OF Some [unfolded x]] have "(i, d) \<in> set coll" "dedup_key d = k"
        by auto
      then have "list_ex (\<lambda>(j, d). j = i \<and> dedup_key d = k) coll"
        by (auto simp: list_ex_iff)
      then show ?thesis
        using Queued f b ne l read_lookup_hit [OF w k2 ne Some [unfolded x], of bc bid c]
        by simp
    qed
  qed
next
  case (Awaiting_write b p later)
  with assms(2) have b: "b = bid" and ne: "k \<noteq> ([], [])"
    and l: "list_all (\<lambda>(f, c). fetches_key env k f) later"
    by auto
  note re = invariant_retry [OF ne l, of bid coll]
  show ?thesis
  proof (cases p)
    case (Return res)
    with assms(2) Awaiting_write show ?thesis by simp
  next
    case (Update i b')
    with assms(2) Awaiting_write obtain d where
      d: "(i, d) \<in> set coll" "dedup_key d = k" and b': "b' = bid"
      by (auto simp: list_ex_iff)
    have "recorded (authoritative_updateOne coll i bid) k bid"
      unfolding recorded_def list_ex_iff
      using updateOne_hits [OF assms(1) d(1), of bid] d(2)
      by (intro bexI [where x = "(i, d\<lparr>bubble_ids := addToSet (bubble_ids d) bid\<rparr>)"]) auto
    then show ?thesis
      using Awaiting_write Update b' by (simp add: processBubbleData_write_def)
  next
    case (Insert d)
    with assms(2) Awaiting_write have d: "dedup_key d = k" "bubble_ids d = [bid]"
      by auto
    then have "recorded (coll @ [(new_ObjectId coll, d)]) k bid"
      by (simp add: recorded_def)
    then show ?thesis
      using Awaiting_write Insert b re
      by (auto simp: processBubbleData_write_def authoritative_insertOne_def split: sum.splits)
  qed
next
  case (Completed res)
  with assms(2) show ?thesis by simp
next
  case (Failed e)
  then show ?thesis by simp
qed

lemma worker_run_length: "length (snd (worker_run env bc schedule (coll, jobs))) = length jobs"
  by (induction schedule arbitrary: coll jobs) (auto split: prod.splits)

lemma worker_run_invariant:
  assumes "unique_ids coll" and "n < length jobs" and "job_invariant env k bid coll (jobs ! n)"
  shows "job_invariant env k bid (fst (worker_run env bc schedule (coll, jobs)))
           (snd (worker_run env bc schedule (coll, jobs)) ! n)"
  using assms
proof (induction schedule arbitrary: coll jobs)
  case Nil
  then show ?case by simp
next
  case (Cons m schedule)
  show ?case
  proof (cases "m < length jobs")
    case False
    with Cons show ?thesis by simp
  next
    case True
    obtain coll' j where s: "job_step env bc coll (jobs ! m) = (coll', j)"
      by (cases "job_step env bc coll (jobs ! m)") auto
    have u: "unique_ids coll'"
      using job_step_unique_ids [OF Cons.prems(1), of env bc "jobs ! m"] s by simp
    have l: "n < length (jobs[m := j])" using Cons.prems(2) by simp
    have i: "job_invariant env k bid coll' (jobs[m := j] ! n)"
    proof (cases "m = n")
      case True
      with invariant_step [OF Cons.prems(1,3), of bc] s Cons.prems(2) show ?thesis by simp
    next
      case False
      have "grows coll coll'" using grows_step [of coll env bc "jobs ! m"] s by simp
      from invariant_grows [OF Cons.prems(3) this] False show ?thesis by simp
    qed
    from Cons.IH [OF u l i] True s show ?thesis by simp
  qed
qed

lemma recorded_unique:
  assumes "unique_index coll" and "recorded coll k a" and "recorded coll k b"
  shows "\<exists>i d. filter (\<lambda>(j, e). dedup_key e = k) coll = [(i, d)]
               \<and> a \<in> set (bubble_ids d) \<and> b \<in> set (bubble_ids d)"
  using assms
proof (induction coll)
  case Nil
  then show ?case by (simp add: recorded_def)
next
  case (Cons x coll)
  obtain j e where x: "x = (j, e)" by (cases x)
  show ?case
  proof (cases "dedup_key e = k")
    case True
    with Cons.prems(1) x have none: "\<forall>(j', e') \<in> set coll. dedup_key e' \<noteq> k"
      by (force simp: unique_index_def)
    then have "filter (\<lambda>(j, e). dedup_key e = k) coll = []"
      by (auto simp: filter_empty_conv)
    moreover have "a \<in> set (bubble_ids e)" "b \<in> set (bubble_ids e)"
      using Cons.prems(2,3) none x by (auto simp: recorded_def list_ex_iff)
    ultimately show ?thesis using x True by simp
  next
    case False
    with Cons x show ?thesis by (auto simp: recorded_def unique_index_def)
  qed
qed

lemma interleaved_unique_index:
  assumes "unique_index coll_w"
  shows "unique_index (snd (processBubbleData_interleaved env bc coll_r coll_w bid fetched clock))"
proof -
  obtain ops res where r: "processBubbleData_read env bc coll_r bid fetched clock = (ops, res)"
    by (cases "processBubbleData_read env bc coll_r bid fetched clock") auto
  show ?thesis
  proof (cases res)
    case (Inl e)
    with r assms show ?thesis by (simp add: processBubbleData_interleaved_def)
  next
    case (Inr p)
    with r have "snd (processBubbleData_interleaved env bc coll_r coll_w bid fetched clock)
                   = snd (processBubbleData_write coll_w bid p)"
      by (simp add: processBubbleData_interleaved_def split: prod.splits)
    with write_unique_index [OF assms, of bid p] show ?thesis by simp
  qed
qed


lemma rejected_attempt:
  assumes "list_ex (\<lambda>(i, d). dedup_key d = dedup_key newDoc) coll"
  shows "job_step env bc coll (Awaiting_write bid (Insert newDoc) later)
           = (coll, retry bid MongoServerError_E11000 later)"
  using assms by (simp add: processBubbleData_write_def authoritative_insertOne_def)

lemma grows_key:
  assumes "grows coll coll'" and "(i, d) \<in> set coll"
  shows "\<exists>d'. (i, d') \<in> set coll' \<and> dedup_key d' = dedup_key d"
  using assms unfolding grows_def list_all_iff list_ex_iff by fastforce

lemma rerun_recovers:
  assumes key: "normalizeUrl env (site_1 r) = Inr (fst k)"
               "normalizeString (full_address_1 r) = snd k" "k \<noteq> ([], [])"
      and present: "list_ex (\<lambda>(i, d). dedup_key d = k) coll_r"
  shows "\<exists>i. job_step env bc coll_r (Queued bid (api_response (Some r)) clock later)
               = (coll_r, Awaiting_write bid (Update i bid) later)
             \<and> (\<forall>coll_w. grows coll_r coll_w \<and> unique_ids coll_w \<longrightarrow>
                   job_step env bc coll_w (Awaiting_write bid (Update i bid) later)
                     = (authoritative_updateOne coll_w i bid,
                        Completed (success_result duplicate bid))
                   \<and> recorded (authoritative_updateOne coll_w i bid) k bid)"
proof -
  have k2: "k = (fst k, normalizeString (full_address_1 r))"
    using key(2) by (cases k) simp
  from present have "authoritative_findOne coll_r k \<noteq> None"
    unfolding authoritative_findOne_def by (simp add: list_ex_find)
  then obtain i d where f: "authoritative_findOne coll_r k = Some (i, d)"
    by (cases "authoritative_findOne coll_r k") auto
  from findOne_mem [OF f] have m: "(i, d) \<in> set coll_r" "dedup_key d = k"
    by auto
  have step1: "job_step env bc coll_r (Queued bid (api_response (Some r)) clock later)
               = (coll_r, Awaiting_write bid (Update i bid) later)"
    using read_lookup_hit [OF key(1) k2 key(3) f, of bc bid clock] by simp
  have step2: "job_step env bc coll_w (Awaiting_write bid (Update i bid) later)
                     = (authoritative_updateOne coll_w i bid,
                        Completed (success_result duplicate bid))
                   \<and> recorded (authoritative_updateOne coll_w i bid) k bid"
    if g: "grows coll_r coll_w" and u: "unique_ids coll_w" for coll_w
  proof -
    from grows_key [OF g m(1)] m(2) obtain d' where
      d': "(i, d') \<in> set coll_w" "dedup_key d' = k"
      by auto
    have "recorded (authoritative_updateOne coll_w i bid) k bid"
      unfolding recorded_def list_ex_iff
      using updateOne_hits [OF u d'(1), of bid] d'(2)
      by (intro bexI [where x = "(i, d'\<lparr>bubble_ids := addToSet (bubble_ids d') bid\<rparr>)"]) auto
    then show ?thesis
      by (simp add: processBubbleData_write_def)
  qed
  from step1 step2 show ?thesis by blast
qed

lemma key_present_grows: "key_present coll k \<Longrightarrow> grows coll coll' \<Longrightarrow> key_present coll' k"
  unfolding key_present_def grows_def list_all_iff list_ex_iff by fastforce

lemma key_present_findOne:
  "key_present coll k \<longleftrightarrow> authoritative_findOne coll k \<noteq> None"
  unfolding key_present_def authoritative_findOne_def by (simp add: list_ex_find)

lemma never_fails_grows:
  assumes "never_fails env bc k coll j" and "grows coll coll'"
  shows "never_fails env bc k coll' j"
  using assms by (cases j) (auto dest: key_present_grows)

lemma never_fails_step:
  assumes "never_fails env bc k coll j"
  shows "never_fails env bc k (fst (job_step env bc coll j)) (snd (job_step env bc coll j))"
proof (cases j)
  case (Queued bid f c later)
  with assms obtain r mm where
    f: "f = api_response (Some r)" and ne: "k \<noteq> ([], [])" and
    w: "normalizeUrl env (site_1 r) = Inr (fst k)" and
    a: "normalizeString (full_address_1 r) = snd k" and
    m: "snd (matcher env bc r) = Inr mm" and
    l: "list_all (fetches_record env bc k) (map fst later)" and
    p: "later \<noteq> [] \<or> key_present coll k"
    by (auto simp: fetches_record_def split: fetch_result.splits option.splits sum.splits)
  have k2: "k = (fst k, normalizeString (full_address_1 r))"
    using a by (cases k) simp
  show ?thesis
  proof (cases "authoritative_findOne coll k")
    case None
    with p have "later \<noteq> []" by (simp add: key_present_findOne)
    then show ?thesis
      using Queued f ne l m read_lookup_miss [OF w k2 ne None, of bc bid c]
      by simp
  next
    case (Some x)
    obtain i d where x: "x = (i, d)" by (cases x)
    show ?thesis
      using Queued f ne l read_lookup_hit [OF w k2 ne Some [unfolded x], of bc bid c]
      by simp
  qed
next
  case (Awaiting_write bid p later)
  show ?thesis
  proof (cases p)
    case (Return res)
    with assms Awaiting_write show ?thesis by simp
  next
    case (Update i b)
    with Awaiting_write show ?thesis by (simp add: processBubbleData_write_def)
  next
    case (Insert d)
    with assms Awaiting_write have ne: "k \<noteq> ([], [])" and d: "dedup_key d = k"
      and l: "list_all (fetches_record env bc k) (map fst later)" and n: "later \<noteq> []"
      by auto
    show ?thesis
    proof (cases "key_present coll k")
      case True
      then have "list_ex (\<lambda>(i, d'). dedup_key d' = dedup_key d) coll"
        using d by (simp add: key_present_def)
      from rejected_attempt [OF this, of env bc bid later] Awaiting_write Insert ne l n True
      show ?thesis
        by (cases later) (auto simp: retry_def)
    next
      case False
      then have "\<not> list_ex (\<lambda>(i, d'). dedup_key d' = dedup_key d) coll"
        using d by (simp add: key_present_def)
      then show ?thesis
        using Awaiting_write Insert
        by (simp add: processBubbleData_write_def authoritative_insertOne_def)
    qed
  qed
next
  case (Completed res)
  then show ?thesis by simp
next
  case (Failed e)
  with assms show ?thesis by simp
qed

lemma worker_run_never_fails:
  assumes "n < length jobs" and "never_fails env bc k coll (jobs ! n)"
  shows "never_fails env bc k (fst (worker_run env bc schedule (coll, jobs)))
           (snd (worker_run env bc schedule (coll, jobs)) ! n)"
  using assms
proof (induction schedule arbitrary: coll jobs)
  case Nil
  then show ?case by simp
next
  case (Cons m schedule)
  show ?case
  proof (cases "m < length jobs")
    case False
    with Cons show ?thesis by simp
  next
    case True
    obtain coll' j where s: "job_step env bc coll (jobs ! m) = (coll', j)"
      by (cases "job_step env bc coll (jobs ! m)") auto
    have l: "n < length (jobs[m := j])" using Cons.prems(1) by simp
    have i: "never_fails env bc k coll' (jobs[m := j] ! n)"
    proof (cases "m = n")
      case True
      with never_fails_step [OF Cons.prems(2)] s Cons.prems(1) show ?thesis by simp
    next
      case False
      have "grows coll coll'" using grows_step [of coll env bc "jobs ! m"] s by simp
      from never_fails_grows [OF Cons.prems(2) this] False show ?thesis by simp
    qed
    from Cons.IH [OF l i] True s show ?thesis by simp
  qed
qed

lemma race_never_fails:
  assumes "worker_run env bc schedule (coll0, jobs0) = (coll, jobs)"
      and "n < length jobs0" and "jobs0 ! n = Queued bid f c later" and "later \<noteq> []"
      and "list_all (fetches_record env bc k) (f # map fst later)" and "k \<noteq> ([], [])"
  shows "jobs ! n \<noteq> Failed e"
proof -
  have "never_fails env bc k coll0 (jobs0 ! n)"
    using assms(3-6) by simp
  from worker_run_never_fails [OF assms(2) this, of schedule] assms(1)
  have "never_fails env bc k coll (jobs ! n)" by simp
  then show ?thesis by auto
qed

lemma fetches_record_key: "fetches_record env bc k f \<Longrightarrow> fetches_key env k f"
  by (auto simp: fetches_record_def fetches_key_def split: fetch_result.splits option.splits)




end
